theory Spec2Isabelle
  imports Complex_Main "HOL-Library.Word" "HOL-Library.Log_Nat"
begin

section \<open>fixmd: a shallow embedding of \<^verbatim>\<open>main.go\<close>\<close>

text \<open>
  The program collects Markdown files, backs every one of them up, sends each to a remote
  service through a retrying client, writes the answer back in place and keeps count in a
  status bar. Each Go function is embedded under its own name. What the operating system,
  the network and the random source answer is not decided by the program: those answers are
  inputs of the model (the record \<open>env\<close> below).
\<close>

subsection \<open>Strings and paths (\<^verbatim>\<open>strings\<close>, \<^verbatim>\<open>path/filepath\<close>)\<close>

text \<open>
  A Go string is a sequence of bytes: a \<open>string\<close>. The functions of the standard library
  that the program calls are written out for a Unix system (separator \<^verbatim>\<open>/\<close>, no volume
  names), after their documentation and source in the Go distribution.
\<close>

type_synonym path = string

definition Separator :: char where
  "Separator = CHR ''/''"

definition strings_HasPrefix :: "string \<Rightarrow> string \<Rightarrow> bool" where
  "strings_HasPrefix s prefix = (length prefix \<le> length s \<and> take (length prefix) s = prefix)"

definition strings_HasSuffix :: "string \<Rightarrow> string \<Rightarrow> bool" where
  "strings_HasSuffix s suffix =
     (length suffix \<le> length s \<and> drop (length s - length suffix) s = suffix)"

text \<open>
  \<^verbatim>\<open>strings.ToLower\<close> on the ASCII letters; other bytes are kept. (No character outside ASCII
  has \<^verbatim>\<open>.\<close>, \<^verbatim>\<open>m\<close> or \<^verbatim>\<open>d\<close> as its lower case, so the test for the suffix \<^verbatim>\<open>.md\<close> is not
  affected.)
\<close>

definition lower_char :: "char \<Rightarrow> char" where
  "lower_char c =
     (case map_of (zip ''ABCDEFGHIJKLMNOPQRSTUVWXYZ'' ''abcdefghijklmnopqrstuvwxyz'') c of
        Some d \<Rightarrow> d
      | None \<Rightarrow> c)"

definition strings_ToLower :: "string \<Rightarrow> string" where
  "strings_ToLower s = map lower_char s"

text \<open>\<^verbatim>\<open>strings.ReplaceAll(s, old, new)\<close> for an \<open>old\<close> and a \<open>new\<close> of one byte each.\<close>

definition strings_ReplaceAll :: "string \<Rightarrow> char \<Rightarrow> char \<Rightarrow> string" where
  "strings_ReplaceAll s old new = map (\<lambda>c. if c = old then new else c) s"

text \<open>The elements of a path: the pieces between separators, empty ones included.\<close>

fun elements :: "string \<Rightarrow> string list" where
  "elements [] = [[]]"
| "elements (c # cs) =
     (if c = Separator then [] # elements cs
      else (case elements cs of [] \<Rightarrow> [[c]] | x # xs \<Rightarrow> (c # x) # xs))"

fun joinSep :: "string list \<Rightarrow> string" where
  "joinSep [] = []"
| "joinSep [x] = x"
| "joinSep (x # y # zs) = x @ [Separator] @ joinSep (y # zs)"

text \<open>
  \<^verbatim>\<open>filepath.Clean\<close>: empty elements and \<^verbatim>\<open>.\<close> are dropped; \<^verbatim>\<open>..\<close> removes the element
  before it, is dropped at the root of a rooted path and is kept at the start of a
  relative one. The second argument is the output so far, last element first.
\<close>

fun clean_elements :: "bool \<Rightarrow> string list \<Rightarrow> string list \<Rightarrow> string list" where
  "clean_elements rooted out [] = rev out"
| "clean_elements rooted out (x # xs) =
     (if x = [] \<or> x = ''.'' then clean_elements rooted out xs
      else if x = ''..'' then
        (case out of
           [] \<Rightarrow> if rooted then clean_elements rooted [] xs
                 else clean_elements rooted [''..''] xs
         | y # ys \<Rightarrow> if y = ''..'' then clean_elements rooted (''..'' # out) xs
                     else clean_elements rooted ys xs)
      else clean_elements rooted (x # out) xs)"

definition filepath_Clean :: "path \<Rightarrow> path" where
  "filepath_Clean p =
     (if p = [] then ''.''
      else
        (let rooted = (hd p = Separator);
             s = joinSep (clean_elements rooted [] (elements p))
         in if rooted then Separator # s else if s = [] then ''.'' else s))"

text \<open>\<^verbatim>\<open>filepath.Join\<close>: leading empty elements are ignored, the rest is joined and cleaned.\<close>

definition filepath_Join :: "path list \<Rightarrow> path" where
  "filepath_Join elem =
     (case dropWhile (\<lambda>e. e = []) elem of
        [] \<Rightarrow> []
      | e # es \<Rightarrow> filepath_Clean (joinSep (e # es)))"

text \<open>\<^verbatim>\<open>filepath.Dir\<close>: everything up to the last separator, cleaned.\<close>

definition filepath_Dir :: "path \<Rightarrow> path" where
  "filepath_Dir p = filepath_Clean (rev (dropWhile (\<lambda>c. c \<noteq> Separator) (rev p)))"

text \<open>\<^verbatim>\<open>filepath.Base\<close>: the last element, trailing separators removed first.\<close>

definition filepath_Base :: "path \<Rightarrow> path" where
  "filepath_Base p =
     (if p = [] then ''.''
      else
        (let q = dropWhile (\<lambda>c. c = Separator) (rev p);
             b = rev (takeWhile (\<lambda>c. c \<noteq> Separator) q)
         in if b = [] then [Separator] else b))"

definition filepath_IsAbs :: "path \<Rightarrow> bool" where
  "filepath_IsAbs p = strings_HasPrefix p [Separator]"

subsection \<open>Constants and data (lines 21-66)\<close>

definition BackupDirName :: string where
  "BackupDirName = ''backup''"

definition SystemPrompt :: string where
  "SystemPrompt = ''You are an API for formatting and fixing spelling mistakes in a markdown file passed to you. Your two main focuses are DO NOT CHANGE the actual content or meaning of the file whatsoever, only rectify the grammer and make it beautifully well formatted in markdown, utilising all markdown tools. Nothing more. Ensure your response is PURELY the file, as its being used directly in the program. Dont say here you go: or anything, and dont embed in code blocks.''"

definition MaxRetries :: nat where
  "MaxRetries = 5"

text \<open>\<^verbatim>\<open>InitialBackoff\<close> and \<^verbatim>\<open>MaxBackoff\<close>, in seconds (\<^verbatim>\<open>Duration.Seconds()\<close>).\<close>

definition InitialBackoff :: real where
  "InitialBackoff = 1"

definition MaxBackoff :: real where
  "MaxBackoff = 30"

definition MaxConcurrent :: nat where
  "MaxConcurrent = 3"

definition DefaultGeminiAPIURL :: string where
  "DefaultGeminiAPIURL =
     ''https://generativelanguage.googleapis.com/v1beta/models/gemini-2.0-flash:generateContent''"

definition EnvFile :: string where
  "EnvFile = ''.env''"

record Part =
  Text :: string

record Content =
  Role :: string
  Parts :: "Part list"

record Candidate =
  Content :: Content

record GeminiRequest =
  Contents :: "Content list"

record GeminiResponse =
  Candidates :: "Candidate list"

record FileToProcess =
  Path :: path
  Content :: string
  BackupPath :: path

text \<open>
  Errors are values. \<open>OsError\<close> stands for an error the operating system reports about a
  path; the other constructors are the errors the program itself builds with
  \<^verbatim>\<open>fmt.Errorf\<close>, each holding what its message is formatted from.
\<close>

datatype error =
    OsError path
  | NilFileInfo
  | ErrReadingFile error
  | ErrAbsolutePath error
  | ErrWalkingDirectory error
  | ErrBackupDirectory path error
  | ErrBackupFile path error
  | ErrMarshalingRequest
  | ErrCreatingRequest
  | ErrSendingRequest
  | ErrReadingResponse
  | ErrApiStatus nat string
  | ErrUnmarshalingResponse
  | ErrNoValidResponse
  | ErrMaxRetries "error option"

subsection \<open>The environment\<close>

text \<open>
  A directory as \<^verbatim>\<open>filepath.Walk\<close> sees it (through \<^verbatim>\<open>Lstat\<close>, so links are not followed):
  a file, a directory with its entries in the order \<^verbatim>\<open>readDirNames\<close> returns them (sorted by
  name), a directory whose entries cannot be read, or an entry whose \<^verbatim>\<open>Lstat\<close> fails. The
  string is the entry's name.
\<close>

datatype node =
    File string
  | Dir string "node list"
  | DirUnreadable string
  | Broken string

fun node_name :: "node \<Rightarrow> string" where
  "node_name (File n) = n"
| "node_name (Dir n es) = n"
| "node_name (DirUnreadable n) = n"
| "node_name (Broken n) = n"

fun node_IsDir :: "node \<Rightarrow> bool" where
  "node_IsDir (Dir n es) = True"
| "node_IsDir (DirUnreadable n) = True"
| "node_IsDir other = False"

text \<open>
  What one call of \<^verbatim>\<open>processWithGemini\<close> meets: each constructor is one of the places where
  the function can leave, the last one a response with its status code, its body and what
  \<^verbatim>\<open>json.Unmarshal\<close> makes of the body (\<open>None\<close> when it fails).
\<close>

datatype exchange =
    MarshalFails
  | NewRequestFails
  | DoFails
  | ReadAllFails
  | Response nat string "GeminiResponse option"

text \<open>
  What \<^verbatim>\<open>os.WriteFile\<close> meets. It opens the file with \<^verbatim>\<open>O_TRUNC\<close> and then writes; its
  documentation says: ``Since WriteFile requires multiple system calls to complete, a
  failure mid-operation can leave the file in a partially written state.'' So a call
  succeeds, fails before the file is opened, or fails after the file was truncated and some
  bytes were written.
\<close>

datatype write_outcome =
    WriteOk
  | OpenFails
  | WriteFailsAfter nat

text \<open>
  The answers of the world outside the program. Those that can differ from call to call
  take the value of a clock that every system call advances. \<open>Getenv\<close> is what \<^verbatim>\<open>os.Getenv\<close>
  returns once \<^verbatim>\<open>godotenv.Load(EnvFile)\<close> has added the variables of the file \<^verbatim>\<open>.env\<close> to
  the environment (a variable that is set already keeps its value; a missing file only
  gives a warning); an unset variable is the empty string.
\<close>

record env =
  Getenv :: "string \<Rightarrow> string"
  Getwd :: "error + path"
  Stat :: "path \<Rightarrow> error + bool"
  Lstat_tree :: "path \<Rightarrow> error + node"
  mkdir_result :: "nat \<Rightarrow> path \<Rightarrow> error option"
  write_result :: "nat \<Rightarrow> path \<Rightarrow> write_outcome"
  http :: "nat \<Rightarrow> GeminiRequest \<Rightarrow> exchange"
  rand_Float64 :: "nat \<Rightarrow> real"
  schedule :: "nat list"

text \<open>What the program does to the outside, in order.\<close>

datatype event =
    MkdirAllCalled path
  | WriteFileCalled path string
  | GeminiCalled string
  | Slept int

text \<open>
  The state outside the program: the regular files by the path they are opened with, the
  clock, and the events so far. Directories are not part of the state.
\<close>

record world =
  files :: "path \<rightharpoonup> string"
  clock :: nat
  log :: "event list"

definition os_ReadFile :: "path \<Rightarrow> world \<Rightarrow> error + string" where
  "os_ReadFile p w = (case files w p of None \<Rightarrow> Inl (OsError p) | Some c \<Rightarrow> Inr c)"

definition os_MkdirAll :: "env \<Rightarrow> path \<Rightarrow> world \<Rightarrow> error option \<times> world" where
  "os_MkdirAll e p w =
     (mkdir_result e (clock w) p,
      w\<lparr>clock := clock w + 1, log := log w @ [MkdirAllCalled p]\<rparr>)"

definition os_WriteFile :: "env \<Rightarrow> path \<Rightarrow> string \<Rightarrow> world \<Rightarrow> error option \<times> world" where
  "os_WriteFile e p d w =
     (let w1 = w\<lparr>clock := clock w + 1, log := log w @ [WriteFileCalled p d]\<rparr>
      in case write_result e (clock w) p of
           WriteOk \<Rightarrow> (None, w1\<lparr>files := (files w1)(p \<mapsto> d)\<rparr>)
         | OpenFails \<Rightarrow> (Some (OsError p), w1)
         | WriteFailsAfter k \<Rightarrow> (Some (OsError p), w1\<lparr>files := (files w1)(p \<mapsto> take k d)\<rparr>))"

definition time_Sleep :: "int \<Rightarrow> world \<Rightarrow> world" where
  "time_Sleep d w = w\<lparr>log := log w @ [Slept d]\<rparr>"

text \<open>\<^verbatim>\<open>filepath.Abs\<close>: an absolute path is cleaned, a relative one is joined to \<^verbatim>\<open>Getwd\<close>.\<close>

definition filepath_Abs :: "env \<Rightarrow> path \<Rightarrow> error + path" where
  "filepath_Abs e p =
     (if filepath_IsAbs p then Inr (filepath_Clean p)
      else case Getwd e of Inl err \<Rightarrow> Inl err | Inr wd \<Rightarrow> Inr (filepath_Join [wd, p]))"

subsection \<open>Preparing a file (\<^verbatim>\<open>prepareFileForProcessing\<close>, lines 335-381)\<close>

text \<open>
  The function reads the file, takes the directory of its absolute path and compares it
  with the working directory: equal, the working directory a prefix \<^emph>\<open>as a string\<close>
  (\<^verbatim>\<open>strings.HasPrefix\<close>), or neither. The two results of \<^verbatim>\<open>os.Getwd\<close> and
  \<^verbatim>\<open>filepath.Abs(workDir)\<close> are taken without their errors, as the code does: a failed call
  leaves the empty string. After \<^verbatim>\<open>ReplaceAll\<close> no separator is left, so the test for a
  leading \<^verbatim>\<open>/\<close> or \<^verbatim>\<open>\\<close> that follows it looks at the first byte of the flattened path.
\<close>

definition prepareFileForProcessing ::
    "env \<Rightarrow> world \<Rightarrow> path \<Rightarrow> path \<Rightarrow> error + FileToProcess" where
  "prepareFileForProcessing e w filePath backupBaseDir =
     (case os_ReadFile filePath w of
        Inl err \<Rightarrow> Inl (ErrReadingFile err)
      | Inr content \<Rightarrow>
          (case filepath_Abs e filePath of
             Inl err \<Rightarrow> Inl (ErrAbsolutePath err)
           | Inr absFilePath \<Rightarrow>
               (let fileDir = filepath_Dir absFilePath;
                    workDir = (case Getwd e of Inl err \<Rightarrow> [] | Inr d \<Rightarrow> d);
                    absWorkDir = (case filepath_Abs e workDir of Inl err \<Rightarrow> [] | Inr d \<Rightarrow> d);
                    relPath =
                      (if fileDir = absWorkDir then filepath_Base filePath
                       else if strings_HasPrefix fileDir absWorkDir then
                         filepath_Join [drop (length absWorkDir + 1) fileDir, filepath_Base filePath]
                       else
                         (let r = strings_ReplaceAll absFilePath Separator (CHR ''_'')
                          in if length r > 0 \<and> (hd r = CHR ''/'' \<or> hd r = CHR 0x5C)
                             then drop 1 r else r));
                    backupFilePath = filepath_Join [backupBaseDir, relPath @ ''.bak'']
                in Inr \<lparr>Path = filePath, Content = content, BackupPath = backupFilePath\<rparr>)))"

subsection \<open>Collecting the files of a directory (\<^verbatim>\<open>collectFilesFromDir\<close>, lines 295-333)\<close>

record FileInfo =
  Name :: string
  IsDir :: bool

text \<open>What a \<^verbatim>\<open>WalkFunc\<close> returns when it is not \<^verbatim>\<open>nil\<close>.\<close>

datatype walk_error = SkipDir | Fail error

type_synonym 'a WalkFunc =
  "path \<Rightarrow> FileInfo option \<Rightarrow> error option \<Rightarrow> 'a \<Rightarrow> walk_error option \<times> 'a"

text \<open>
  \<^verbatim>\<open>filepath.Walk\<close> and its helper \<^verbatim>\<open>walk\<close>, after their source. The last argument is the
  state the walk function keeps between its calls (here the slice \<^verbatim>\<open>filesToProcess\<close> its
  closure appends to). A file is handed to the function; a directory is handed to it first
  and its entries are walked unless the function objects; \<^verbatim>\<open>SkipDir\<close> from a directory
  skips that directory only, any other error ends the walk.
\<close>

fun walk :: "'a WalkFunc \<Rightarrow> path \<Rightarrow> node \<Rightarrow> 'a \<Rightarrow> walk_error option \<times> 'a"
  and walk_entries :: "'a WalkFunc \<Rightarrow> path \<Rightarrow> node list \<Rightarrow> 'a \<Rightarrow> walk_error option \<times> 'a"
where
  "walk walkFn p (File n) a = walkFn p (Some \<lparr>Name = n, IsDir = False\<rparr>) None a"
| "walk walkFn p (Broken n) a = walkFn p None (Some (OsError p)) a"
| "walk walkFn p (DirUnreadable n) a =
     walkFn p (Some \<lparr>Name = n, IsDir = True\<rparr>) (Some (OsError p)) a"
| "walk walkFn p (Dir n es) a =
     (case walkFn p (Some \<lparr>Name = n, IsDir = True\<rparr>) None a of
        (Some err1, a1) \<Rightarrow> (Some err1, a1)
      | (None, a1) \<Rightarrow> walk_entries walkFn p es a1)"
| "walk_entries walkFn p [] a = (None, a)"
| "walk_entries walkFn p (x # xs) a =
     (let filename = filepath_Join [p, node_name x]
      in case x of
           Broken n \<Rightarrow>
             (case walkFn filename None (Some (OsError filename)) a of
                (Some (Fail err), a1) \<Rightarrow> (Some (Fail err), a1)
              | (r, a1) \<Rightarrow> walk_entries walkFn p xs a1)
         | other \<Rightarrow>
             (case walk walkFn filename x a of
                (Some err, a1) \<Rightarrow>
                  if \<not> node_IsDir x \<or> err \<noteq> SkipDir then (Some err, a1)
                  else walk_entries walkFn p xs a1
              | (None, a1) \<Rightarrow> walk_entries walkFn p xs a1))"

definition filepath_Walk :: "env \<Rightarrow> path \<Rightarrow> 'a WalkFunc \<Rightarrow> 'a \<Rightarrow> error option \<times> 'a" where
  "filepath_Walk e rootPath walkFn a =
     (case (case Lstat_tree e rootPath of
              Inl err \<Rightarrow> walkFn rootPath None (Some err) a
            | Inr x \<Rightarrow> walk walkFn rootPath x a) of
        (Some (Fail err), a1) \<Rightarrow> (Some err, a1)
      | (r, a1) \<Rightarrow> (None, a1))"

text \<open>
  The walk function of \<^verbatim>\<open>collectFilesFromDir\<close>. With a \<^verbatim>\<open>nil\<close> error the file info is never
  \<^verbatim>\<open>nil\<close>; the model answers the impossible case with an error of its own.
\<close>

definition walkFunc ::
    "env \<Rightarrow> world \<Rightarrow> path \<Rightarrow> path \<Rightarrow> bool \<Rightarrow> (FileToProcess list) WalkFunc" where
  "walkFunc e w dirPath backupBaseDir recursive p info err filesToProcess =
     (case err of
        Some er \<Rightarrow> (Some (Fail er), filesToProcess)
      | None \<Rightarrow>
          (case info of
             None \<Rightarrow> (Some (Fail NilFileInfo), filesToProcess)
           | Some i \<Rightarrow>
               if IsDir i then
                 (if \<not> recursive \<and> p \<noteq> dirPath then (Some SkipDir, filesToProcess)
                  else (None, filesToProcess))
               else if \<not> strings_HasSuffix (strings_ToLower (Name i)) ''.md'' then
                 (None, filesToProcess)
               else
                 (case prepareFileForProcessing e w p backupBaseDir of
                    Inl er \<Rightarrow> (Some (Fail er), filesToProcess)
                  | Inr fileToProcess \<Rightarrow> (None, filesToProcess @ [fileToProcess]))))"

definition collectFilesFromDir ::
    "env \<Rightarrow> world \<Rightarrow> path \<Rightarrow> path \<Rightarrow> bool \<Rightarrow> error + FileToProcess list" where
  "collectFilesFromDir e w dirPath backupBaseDir recursive =
     (case filepath_Walk e dirPath (walkFunc e w dirPath backupBaseDir recursive) [] of
        (Some err, filesToProcess) \<Rightarrow> Inl (ErrWalkingDirectory err)
      | (None, filesToProcess) \<Rightarrow> Inr filesToProcess)"

subsection \<open>The backup phase (\<^verbatim>\<open>backupAllFiles\<close>, lines 383-401)\<close>

text \<open>
  One task after the other: create the directory of the backup path, write the backup,
  and return at the first error, which names the task's source path (\<^verbatim>\<open>fileInfo.Path\<close>).
\<close>

fun backupAllFiles :: "env \<Rightarrow> FileToProcess list \<Rightarrow> world \<Rightarrow> error option \<times> world" where
  "backupAllFiles e [] w = (None, w)"
| "backupAllFiles e (fileInfo # rest) w =
     (let backupDirPath = filepath_Dir (BackupPath fileInfo)
      in case os_MkdirAll e backupDirPath w of
           (Some err, w1) \<Rightarrow> (Some (ErrBackupDirectory (Path fileInfo) err), w1)
         | (None, w1) \<Rightarrow>
             (case os_WriteFile e (BackupPath fileInfo) (Content fileInfo) w1 of
                (Some err, w2) \<Rightarrow> (Some (ErrBackupFile (Path fileInfo) err), w2)
              | (None, w2) \<Rightarrow> backupAllFiles e rest w2))"

subsection \<open>Floating-point numbers (\<^verbatim>\<open>float64\<close>)\<close>

text \<open>
  A finite \<^verbatim>\<open>float64\<close> is modelled by the real number it denotes, and an operation on
  \<^verbatim>\<open>float64\<close> by the exact operation followed by the rounding of IEEE 754 binary64: to
  the nearest representable number, a tie going to the one with the even significand. The
  representable numbers around \<open>x\<close> are the multiples of \<open>2 ^ ulp_exp x\<close>: with
  \<open>2 ^ e \<le> \<bar>x\<bar> < 2 ^ (e + 1)\<close> the exponent is \<open>e - 52\<close> (a significand of 53 bits), and
  it is \<open>- 1074\<close> below \<open>2 ^ (- 1022)\<close>, where the numbers are subnormal. Numbers beyond the
  largest \<^verbatim>\<open>float64\<close> are rounded in the same way and not turned into an infinity.
  Each operation is rounded on its own (no fused multiply-add).
\<close>

definition rne :: "real \<Rightarrow> int" where
  "rne q =
     (let f = \<lfloor>q\<rfloor>; d = q - of_int f
      in if d < 1 / 2 then f
         else if 1 / 2 < d then f + 1
         else if even f then f else f + 1)"

definition ulp_exp :: "real \<Rightarrow> int" where
  "ulp_exp x = max (bitlen \<lfloor>\<bar>x\<bar> * 2 ^ 1074\<rfloor> - 1127) (- 1074)"

definition round_pos :: "real \<Rightarrow> real" where
  "round_pos x = of_int (rne (x / 2 powi ulp_exp x)) * 2 powi ulp_exp x"

definition round64 :: "real \<Rightarrow> real" where
  "round64 x = (if x < 0 then - round_pos (- x) else round_pos x)"

text \<open>The numbers that are \<^verbatim>\<open>float64\<close> values.\<close>

definition is_float64 :: "real \<Rightarrow> bool" where
  "is_float64 x = (round64 x = x)"

definition fmul :: "real \<Rightarrow> real \<Rightarrow> real" where
  "fmul a b = round64 (a * b)"

definition fadd :: "real \<Rightarrow> real \<Rightarrow> real" where
  "fadd a b = round64 (a + b)"

definition fsub :: "real \<Rightarrow> real \<Rightarrow> real" where
  "fsub a b = round64 (a - b)"

subsection \<open>The remote call (\<^verbatim>\<open>processWithGemini\<close>, lines 449-508)\<close>

definition requestBody :: "string \<Rightarrow> GeminiRequest" where
  "requestBody content =
     \<lparr>Contents = [\<lparr>Role = ''user'', Parts = [\<lparr>Text = SystemPrompt\<rparr>, \<lparr>Text = content\<rparr>]\<rparr>]\<rparr>"

text \<open>
  The result is the pair the Go function returns: the text and the error (\<open>None\<close> for
  \<^verbatim>\<open>nil\<close>). Every call is one event of the log and one tick of the clock.
\<close>

definition processWithGemini :: "env \<Rightarrow> string \<Rightarrow> world \<Rightarrow> (string \<times> error option) \<times> world" where
  "processWithGemini e content w =
     ((case http e (clock w) (requestBody content) of
         MarshalFails \<Rightarrow> ([], Some ErrMarshalingRequest)
       | NewRequestFails \<Rightarrow> ([], Some ErrCreatingRequest)
       | DoFails \<Rightarrow> ([], Some ErrSendingRequest)
       | ReadAllFails \<Rightarrow> ([], Some ErrReadingResponse)
       | Response status respBody parsed \<Rightarrow>
           if status \<noteq> 200 then ([], Some (ErrApiStatus status respBody))
           else
             (case parsed of
                None \<Rightarrow> ([], Some ErrUnmarshalingResponse)
              | Some geminiResp \<Rightarrow>
                  if length (Candidates geminiResp) = 0 \<or>
                     length (Parts (Candidate.Content (Candidates geminiResp ! 0))) = 0
                  then ([], Some ErrNoValidResponse)
                  else (Text (Parts (Candidate.Content (Candidates geminiResp ! 0)) ! 0), None))),
      w\<lparr>clock := clock w + 1, log := log w @ [GeminiCalled content]\<rparr>)"

subsection \<open>The retrying client (\<^verbatim>\<open>processWithGeminiRetry\<close>, lines 420-447)\<close>

text \<open>
  The delay, as lines 433-440 compute it in \<^verbatim>\<open>float64\<close>. \<^verbatim>\<open>InitialBackoff.Seconds()\<close> is 1
  and \<^verbatim>\<open>math.Pow(2, float64(attempt))\<close> is the power of two, which \<^verbatim>\<open>math.Pow\<close> returns
  exactly (from \<open>attempt = 1024\<close> on it returns \<^verbatim>\<open>+Inf\<close>, and the power of the model exceeds
  \<^verbatim>\<open>MaxBackoff.Seconds()\<close> as well). The untyped constants \<^verbatim>\<open>0.4\<close> and \<^verbatim>\<open>0.2\<close> become the
  nearest \<^verbatim>\<open>float64\<close>; \<^verbatim>\<open>1\<close> and \<^verbatim>\<open>float64(time.Second)\<close>, which is \<open>10\<^sup>9\<close>, are exact. The
  conversion \<^verbatim>\<open>time.Duration(x)\<close> cuts the fraction off (towards zero); the result counts
  nanoseconds. The second argument is the number \<^verbatim>\<open>rand.Float64()\<close> returned.
\<close>

definition time_Duration :: "real \<Rightarrow> int" where
  "time_Duration x = (if 0 \<le> x then \<lfloor>x\<rfloor> else \<lceil>x\<rceil>)"

definition backoffWithJitter :: "nat \<Rightarrow> real \<Rightarrow> int" where
  "backoffWithJitter attempt r =
     (let b = fmul InitialBackoff (2 ^ attempt);
          backoffSeconds = (if b > MaxBackoff then MaxBackoff else b);
          jitter = fsub (fmul r (round64 0.4)) (round64 0.2)
      in time_Duration (fmul (fmul backoffSeconds (fadd 1 jitter)) 1000000000))"

text \<open>
  The loop, from the value \<open>attempt\<close> of its counter on. After a failed call the loop
  sleeps and then increments the counter; the test \<^verbatim>\<open>attempt < MaxRetries\<close> comes after the
  sleep.
\<close>

function processWithGeminiRetry_loop ::
    "env \<Rightarrow> string \<Rightarrow> nat \<Rightarrow> error option \<Rightarrow> world \<Rightarrow> (string \<times> error option) \<times> world" where
  "processWithGeminiRetry_loop e content attempt lastErr w =
     (if attempt < MaxRetries then
        (case processWithGemini e content w of
           ((result, None), w1) \<Rightarrow> ((result, None), w1)
         | ((result, Some err), w1) \<Rightarrow>
             processWithGeminiRetry_loop e content (attempt + 1) (Some err)
               (time_Sleep (backoffWithJitter attempt (rand_Float64 e (clock w1))) w1))
      else (([], Some (ErrMaxRetries lastErr)), w))"
  by pat_completeness auto
termination
  by (relation "measure (\<lambda>(e, content, attempt, lastErr, w). MaxRetries - attempt)") auto

definition processWithGeminiRetry ::
    "env \<Rightarrow> string \<Rightarrow> world \<Rightarrow> (string \<times> error option) \<times> world" where
  "processWithGeminiRetry e content w = processWithGeminiRetry_loop e content 0 None w"

subsection \<open>One file (\<^verbatim>\<open>processFileContent\<close>, lines 403-418)\<close>

definition processFileContent :: "env \<Rightarrow> FileToProcess \<Rightarrow> world \<Rightarrow> bool \<times> world" where
  "processFileContent e fileInfo w =
     (case processWithGeminiRetry e (Content fileInfo) w of
        ((processedContent, Some err), w1) \<Rightarrow> (False, w1)
      | ((processedContent, None), w1) \<Rightarrow>
          (case os_WriteFile e (Path fileInfo) processedContent w1 of
             (Some err, w2) \<Rightarrow> (False, w2)
           | (None, w2) \<Rightarrow> (True, w2)))"

subsection \<open>Reading a run of the retrying client\<close>

text \<open>
  The result of a call of \<^verbatim>\<open>processWithGemini\<close> depends on the world only through the clock:
  \<open>call_result e content c\<close> is what a call made when the clock shows \<open>c\<close> returns.
\<close>

definition call_result :: "env \<Rightarrow> string \<Rightarrow> nat \<Rightarrow> string \<times> error option" where
  "call_result e content c =
     fst (processWithGemini e content \<lparr>files = Map.empty, clock = c, log = []\<rparr>)"

text \<open>The events that a step from \<open>w\<close> to \<open>w'\<close> has added to the log.\<close>

definition new_events :: "world \<Rightarrow> world \<Rightarrow> event list" where
  "new_events w w' = drop (length (log w)) (log w')"

fun calls_in :: "event list \<Rightarrow> nat" where
  "calls_in [] = 0"
| "calls_in (GeminiCalled c # evs) = Suc (calls_in evs)"
| "calls_in (ev # evs) = calls_in evs"

fun sleeps_in :: "event list \<Rightarrow> int list" where
  "sleeps_in [] = []"
| "sleeps_in (Slept d # evs) = d # sleeps_in evs"
| "sleeps_in (ev # evs) = sleeps_in evs"

fun writes_in :: "event list \<Rightarrow> (path \<times> string) list" where
  "writes_in [] = []"
| "writes_in (WriteFileCalled p d # evs) = (p, d) # writes_in evs"
| "writes_in (ev # evs) = writes_in evs"

text \<open>
  The events of \<open>n\<close> failed attempts in a row, the first of them attempt number \<open>a\<close>, made
  when the clock shows \<open>c\<close>: a call, then a sleep of the delay computed for that attempt.
\<close>

fun retry_trace :: "env \<Rightarrow> string \<Rightarrow> nat \<Rightarrow> nat \<Rightarrow> nat \<Rightarrow> event list" where
  "retry_trace e content c a 0 = []"
| "retry_trace e content c a (Suc n) =
     GeminiCalled content # Slept (backoffWithJitter a (rand_Float64 e (c + 1))) #
     retry_trace e content (c + 1) (a + 1) n"

subsection \<open>Reading a collection\<close>


text \<open>The test of line 314, on the name of an entry.\<close>

definition is_markdown :: "string \<Rightarrow> bool" where
  "is_markdown name = strings_HasSuffix (strings_ToLower name) ''.md''"






subsection \<open>The status bar (\<^verbatim>\<open>StatusBar\<close>, lines 68-125)\<close>

text \<open>
  The counters are Go \<^verbatim>\<open>int\<close>s: 64-bit words whose \<open>+\<close> wraps, read as signed numbers by
  \<open>sint\<close> and compared by \<open>\<le>s\<close>. The two time stamps of the struct only feed the elapsed
  time that is printed and are left out. Every method holds the mutex for its whole body, so
  concurrent calls take effect one after the other, in the order in which they get the lock:
  a run of the status bar is a list of calls.
\<close>

record StatusBar =
  total :: "64 word"
  processed :: "64 word"
  success :: "64 word"
  failed :: "64 word"

text \<open>
  A printed line, reduced to the four integers its format string shows (the percentage and
  the bar of \<^verbatim>\<open>getProgressBar\<close> are computed from them in floating point for display only):
  \<^verbatim>\<open>Processing: p/t | Success: s | Failed: f\<close> and \<^verbatim>\<open>Completed: t/t | Success: s | Failed: f\<close>.
\<close>

datatype line =
    is_Processing: Processing (shown_processed: "64 word") (shown_total: "64 word")
      (shown_success: "64 word") (shown_failed: "64 word")
  | Completed (shown_processed: "64 word") (shown_total: "64 word")
      (shown_success: "64 word") (shown_failed: "64 word")

definition NewStatusBar :: "64 word \<Rightarrow> StatusBar" where
  "NewStatusBar n = \<lparr>total = n, processed = 0, success = 0, failed = 0\<rparr>"

definition update :: "StatusBar \<Rightarrow> line" where
  "update s = Processing (processed s) (total s) (success s) (failed s)"

definition IncrementSuccess :: "StatusBar \<Rightarrow> StatusBar \<times> line" where
  "IncrementSuccess s =
     (let s1 = s\<lparr>processed := processed s + 1\<rparr>;
          s2 = s1\<lparr>success := success s1 + 1\<rparr>
      in (s2, update s2))"

definition IncrementFailed :: "StatusBar \<Rightarrow> StatusBar \<times> line" where
  "IncrementFailed s =
     (let s1 = s\<lparr>processed := processed s + 1\<rparr>;
          s2 = s1\<lparr>failed := failed s1 + 1\<rparr>
      in (s2, update s2))"

text \<open>\<^verbatim>\<open>Finish\<close> prints the total twice; it does not read \<^verbatim>\<open>processed\<close>.\<close>

definition Finish :: "StatusBar \<Rightarrow> StatusBar \<times> line" where
  "Finish s = (s, Completed (total s) (total s) (success s) (failed s))"

datatype call = CallIncrementSuccess | CallIncrementFailed | CallFinish

fun do_call :: "call \<Rightarrow> StatusBar \<Rightarrow> StatusBar \<times> line" where
  "do_call CallIncrementSuccess s = IncrementSuccess s"
| "do_call CallIncrementFailed s = IncrementFailed s"
| "do_call CallFinish s = Finish s"

text \<open>A sequence of calls on one status bar: the final state and the lines printed.\<close>

fun run_calls :: "StatusBar \<Rightarrow> call list \<Rightarrow> StatusBar \<times> line list" where
  "run_calls s [] = (s, [])"
| "run_calls s (c # cs) =
     (let (s1, l) = do_call c s; (s2, ls) = run_calls s1 cs in (s2, l # ls))"

text \<open>How many of the calls are reports (an increment of either kind).\<close>

fun increments :: "call list \<Rightarrow> nat" where
  "increments [] = 0"
| "increments (CallFinish # cs) = increments cs"
| "increments (c # cs) = Suc (increments cs)"

text \<open>What a printed line shows: \<open>processed = success + failed\<close>, and \<open>processed \<le> total\<close>.\<close>

definition shown_consistent :: "line \<Rightarrow> bool" where
  "shown_consistent l = (shown_processed l = shown_success l + shown_failed l)"

definition shown_bounded :: "line \<Rightarrow> bool" where
  "shown_bounded l = (shown_processed l \<le>s shown_total l)"

subsection \<open>The semaphore (\<^verbatim>\<open>ApiSemaphore\<close>, lines 143-160)\<close>

text \<open>
  A buffered channel of empty structs, by its capacity and the number of elements it
  holds. A send blocks while the channel is full and a receive blocks while it is empty: a
  blocked operation is \<open>None\<close>.
\<close>

record ApiSemaphore =
  ch_cap :: nat
  ch_len :: nat

definition NewApiSemaphore :: "nat \<Rightarrow> ApiSemaphore" where
  "NewApiSemaphore m = \<lparr>ch_cap = m, ch_len = 0\<rparr>"

definition Acquire :: "ApiSemaphore \<Rightarrow> ApiSemaphore option" where
  "Acquire s = (if ch_len s < ch_cap s then Some (s\<lparr>ch_len := ch_len s + 1\<rparr>) else None)"

definition Release :: "ApiSemaphore \<Rightarrow> ApiSemaphore option" where
  "Release s = (if 0 < ch_len s then Some (s\<lparr>ch_len := ch_len s - 1\<rparr>) else None)"

subsection \<open>The workers (\<^verbatim>\<open>main\<close>, lines 262-289)\<close>

text \<open>
  \<^verbatim>\<open>main\<close> starts one goroutine per file. Where a goroutine stands:
  \<^item> \<open>Waiting\<close>: started, before \<^verbatim>\<open>apiSemaphore.Acquire()\<close> has returned;
  \<^item> \<open>Holding\<close>: the semaphore is acquired and \<^verbatim>\<open>processFileContent\<close>, with its transform
    calls, is under way;
  \<^item> \<open>Finished b\<close>: \<^verbatim>\<open>processFileContent\<close> has returned \<open>b\<close>;
  \<^item> \<open>Reported\<close>: the status bar has been incremented;
  \<^item> \<open>Done\<close>: the deferred \<^verbatim>\<open>Release\<close> and \<^verbatim>\<open>wg.Done\<close> have run.

  The goroutines share the semaphore, the status bar (whose methods hold its mutex) and the
  world outside. A run interleaves their steps; \<^verbatim>\<open>processFileContent\<close> is taken as one step,
  since the goroutines share no variable it reads or writes.
\<close>

datatype pc = Waiting | Holding | Finished bool | Reported | Done

record pool =
  outside :: world
  apiSemaphore :: ApiSemaphore
  statusBar :: StatusBar
  printed :: "line list"
  pcs :: "pc list"

text \<open>
  The next step of goroutine \<open>i\<close>. A goroutine that is blocked (or does not exist, or has
  ended) leaves the state as it is.
\<close>

definition worker_step :: "env \<Rightarrow> FileToProcess list \<Rightarrow> nat \<Rightarrow> pool \<Rightarrow> pool" where
  "worker_step e filesToProcess i st =
     (if i < length (pcs st) \<and> i < length filesToProcess then
        (case pcs st ! i of
           Waiting \<Rightarrow>
             (case Acquire (apiSemaphore st) of
                None \<Rightarrow> st
              | Some s \<Rightarrow> st\<lparr>apiSemaphore := s, pcs := (pcs st)[i := Holding]\<rparr>)
         | Holding \<Rightarrow>
             (let (ok, w) = processFileContent e (filesToProcess ! i) (outside st)
              in st\<lparr>outside := w, pcs := (pcs st)[i := Finished ok]\<rparr>)
         | Finished ok \<Rightarrow>
             (let (b, l) = (if ok then IncrementSuccess (statusBar st)
                            else IncrementFailed (statusBar st))
              in st\<lparr>statusBar := b, printed := printed st @ [l], pcs := (pcs st)[i := Reported]\<rparr>)
         | Reported \<Rightarrow>
             (case Release (apiSemaphore st) of
                None \<Rightarrow> st
              | Some s \<Rightarrow> st\<lparr>apiSemaphore := s, pcs := (pcs st)[i := Done]\<rparr>)
         | Done \<Rightarrow> st)
      else st)"

fun run_schedule :: "env \<Rightarrow> FileToProcess list \<Rightarrow> nat list \<Rightarrow> pool \<Rightarrow> pool" where
  "run_schedule e filesToProcess [] st = st"
| "run_schedule e filesToProcess (i # sched) st =
     run_schedule e filesToProcess sched (worker_step e filesToProcess i st)"

definition start_workers :: "FileToProcess list \<Rightarrow> world \<Rightarrow> pool" where
  "start_workers filesToProcess w =
     \<lparr>outside = w,
      apiSemaphore = NewApiSemaphore MaxConcurrent,
      statusBar = NewStatusBar (of_nat (length filesToProcess)),
      printed = [],
      pcs = replicate (length filesToProcess) Waiting\<rparr>"

text \<open>How many goroutines are inside \<^verbatim>\<open>processFileContent\<close>, and how many hold the semaphore.\<close>

definition in_flight :: "pool \<Rightarrow> nat" where
  "in_flight st = length (filter (\<lambda>c. c = Holding) (pcs st))"

definition holders :: "pool \<Rightarrow> nat" where
  "holders st = length (filter (\<lambda>c. c \<noteq> Waiting \<and> c \<noteq> Done) (pcs st))"

text \<open>
  What holds in every state of the workers: one program counter per task, a channel of
  capacity \<open>MaxConcurrent\<close>, and as many elements in it as there are goroutines between
  their \<^verbatim>\<open>Acquire\<close> and their \<^verbatim>\<open>Release\<close>.
\<close>

definition pool_inv :: "FileToProcess list \<Rightarrow> pool \<Rightarrow> bool" where
  "pool_inv ts st =
     (length (pcs st) = length ts \<and>
      ch_cap (apiSemaphore st) = MaxConcurrent \<and>
      ch_len (apiSemaphore st) = holders st \<and>
      holders st \<le> MaxConcurrent)"

text \<open>The steps a goroutine still has to take, and their sum over the pool.\<close>

fun steps_left :: "pc \<Rightarrow> nat" where
  "steps_left Waiting = 4"
| "steps_left Holding = 3"
| "steps_left (Finished b) = 2"
| "steps_left Reported = 1"
| "steps_left Done = 0"

definition remaining :: "pool \<Rightarrow> nat" where
  "remaining st = sum_list (map steps_left (pcs st))"

text \<open>
  How many goroutines have reported to the status bar; what holds of the status bar in every
  state of the workers; and the calls that made it: the status bar and the lines printed are
  those of a sequence of calls with one report for each goroutine that has reported.
\<close>

definition reported :: "pool \<Rightarrow> nat" where
  "reported st = length (filter (\<lambda>c. c = Reported \<or> c = Done) (pcs st))"

definition bar_inv :: "FileToProcess list \<Rightarrow> pool \<Rightarrow> bool" where
  "bar_inv ts st =
     (length (pcs st) = length ts \<and>
      total (statusBar st) = of_nat (length ts) \<and>
      processed (statusBar st) = of_nat (reported st) \<and>
      processed (statusBar st) = success (statusBar st) + failed (statusBar st) \<and>
      list_all (\<lambda>l. is_Processing l \<and> shown_consistent l \<and> shown_bounded l) (printed st))"

definition calls_inv :: "FileToProcess list \<Rightarrow> pool \<Rightarrow> bool" where
  "calls_inv ts st =
     (\<exists>cs. run_calls (NewStatusBar (of_nat (length ts))) cs = (statusBar st, printed st) \<and>
           increments cs = reported st \<and> CallFinish \<notin> set cs)"

subsection \<open>The program (\<^verbatim>\<open>init\<close>, lines 162-184, and \<^verbatim>\<open>main\<close>, lines 186-293)\<close>

text \<open>
  \<^verbatim>\<open>init\<close> runs before \<^verbatim>\<open>main\<close>. It leaves with exit code 1 when \<^verbatim>\<open>GEMINI_API_KEY\<close> is empty;
  otherwise it sets the two global variables \<^verbatim>\<open>GeminiAPIKey\<close> and \<^verbatim>\<open>GeminiAPIURL\<close>, which are
  the result here. They make the address of the request, which the answers \<open>http\<close> of the
  environment do not depend on.
\<close>

definition init :: "env \<Rightarrow> nat + string \<times> string" where
  "init e =
     (let GeminiAPIKey = Getenv e ''GEMINI_API_KEY''
      in if GeminiAPIKey = [] then Inl 1
         else
           (let GeminiAPIURL = Getenv e ''GEMINI_API_URL''
            in if GeminiAPIURL = [] then Inr (GeminiAPIKey, DefaultGeminiAPIURL)
               else Inr (GeminiAPIKey, GeminiAPIURL)))"

text \<open>
  A run of \<^verbatim>\<open>main\<close> after \<^verbatim>\<open>flag.Parse\<close>, from the flag \<^verbatim>\<open>-r\<close> and the positional arguments.
  The result is the exit code, the world outside and the lines of the status bar; \<open>None\<close>
  is a run in which \<^verbatim>\<open>wg.Wait\<close> has not returned when the schedule ends.

  \<open>process_batch\<close> is the part of \<^verbatim>\<open>main\<close> from line 247 on, which works on the slice
  \<^verbatim>\<open>filesToProcess\<close>; \<open>collect_phase\<close> is the part before it (lines 198-245), which either
  leaves with an exit code or yields the slice.
\<close>

definition process_batch ::
    "env \<Rightarrow> FileToProcess list \<Rightarrow> world \<Rightarrow> (nat \<times> world \<times> line list) option" where
  "process_batch e filesToProcess w =
     (if length filesToProcess = 0 then Some (0, w, [])
      else
        (case backupAllFiles e filesToProcess w of
           (Some err, w1) \<Rightarrow> Some (1, w1, [])
         | (None, w1) \<Rightarrow>
             (let st = run_schedule e filesToProcess (schedule e) (start_workers filesToProcess w1)
              in if list_all (\<lambda>c. c = Done) (pcs st)
                 then Some (0, outside st, printed st @ [snd (Finish (statusBar st))])
                 else None)))"

definition collect_phase ::
    "env \<Rightarrow> bool \<Rightarrow> string list \<Rightarrow> world \<Rightarrow> nat + FileToProcess list" where
  "collect_phase e recursive args w =
     (if length args < 1 then Inl 1
      else
        (let p = args ! 0
         in case Getwd e of
              Inl err \<Rightarrow> Inl 1
            | Inr workDir \<Rightarrow>
                (let backupDir = filepath_Join [workDir, BackupDirName]
                 in case Stat e p of
                      Inl err \<Rightarrow> Inl 1
                    | Inr isDir \<Rightarrow>
                        if isDir then
                          (case collectFilesFromDir e w p backupDir recursive of
                             Inl err \<Rightarrow> Inl 1
                           | Inr filesToProcess \<Rightarrow> Inr filesToProcess)
                        else if \<not> strings_HasSuffix (strings_ToLower p) ''.md'' then Inl 0
                        else
                          (case prepareFileForProcessing e w p backupDir of
                             Inl err \<Rightarrow> Inl 1
                           | Inr fileToProcess \<Rightarrow> Inr ([] @ [fileToProcess])))))"

definition main :: "env \<Rightarrow> bool \<Rightarrow> string list \<Rightarrow> world \<Rightarrow> (nat \<times> world \<times> line list) option" where
  "main e recursive args w =
     (case collect_phase e recursive args w of
        Inl code \<Rightarrow> Some (code, w, [])
      | Inr filesToProcess \<Rightarrow> process_batch e filesToProcess w)"

text \<open>The process: \<^verbatim>\<open>init\<close>, then \<^verbatim>\<open>main\<close>.\<close>

definition fixmd :: "env \<Rightarrow> bool \<Rightarrow> string list \<Rightarrow> world \<Rightarrow> (nat \<times> world \<times> line list) option" where
  "fixmd e recursive args w =
     (case init e of
        Inl code \<Rightarrow> Some (code, w, [])
      | Inr globals \<Rightarrow> main e recursive args w)"

subsection \<open>An example run\<close>

text \<open>
  A working directory \<^verbatim>\<open>/home/u/proj\<close> with one Markdown file; the key of the service is
  set; the remote service fails twice and then answers; every random number drawn is one
  half.
\<close>

definition ok_response :: "string \<Rightarrow> exchange" where
  "ok_response t =
     Response 200 ''{}'' (Some \<lparr>Candidates = [\<lparr>Candidate.Content = \<lparr>Role = ''model'', Parts = [\<lparr>Text = t\<rparr>]\<rparr>\<rparr>]\<rparr>)"

definition example_env :: env where
  "example_env =
     \<lparr>Getenv = (\<lambda>n. if n = ''GEMINI_API_KEY'' then ''key'' else []),
      Getwd = Inr ''/home/u/proj'',
      Stat = (\<lambda>p. if p = ''docs'' then Inr True else Inr False),
      Lstat_tree = (\<lambda>p. Inl (OsError p)),
      mkdir_result = (\<lambda>c p. None),
      write_result = (\<lambda>c p. WriteOk),
      http = (\<lambda>c r. if c < 2 then DoFails else ok_response ''fixed''),
      rand_Float64 = (\<lambda>c. 1 / 2),
      schedule = []\<rparr>"

definition example_world :: world where
  "example_world = \<lparr>files = [''a.md'' \<mapsto> ''teh file''], clock = 0, log = []\<rparr>"

text \<open>
  The same, but the service answers at once and the write-back fails after two bytes; and
  the task of the one file.
\<close>

definition env_partial_write :: env where
  "env_partial_write =
     example_env\<lparr>http := \<lambda>c r. ok_response ''fixed'', write_result := \<lambda>c p. WriteFailsAfter 2\<rparr>"

definition example_task :: FileToProcess where
  "example_task =
     \<lparr>Path = ''a.md'', Content = ''teh file'', BackupPath = ''/home/u/proj/backup/a.md.bak''\<rparr>"

text \<open>
  A second task, in a subdirectory; a working directory that holds both files; and an
  environment in which \<^verbatim>\<open>.\<close> is that directory and the directory for the second backup
  cannot be created.
\<close>

definition example_task2 :: FileToProcess where
  "example_task2 =
     \<lparr>Path = ''sub/b.md'', Content = ''secnd'', BackupPath = ''/home/u/proj/backup/sub/b.md.bak''\<rparr>"

definition two_files_world :: world where
  "two_files_world =
     \<lparr>files = [''a.md'' \<mapsto> ''teh file'', ''sub/b.md'' \<mapsto> ''secnd''], clock = 0, log = []\<rparr>"




definition env_no_key :: env where
  "env_no_key = example_env\<lparr>Getenv := \<lambda>n. []\<rparr>"

definition env_no_cwd :: env where
  "env_no_cwd = example_env\<lparr>Getwd := Inl (OsError ''getwd'')\<rparr>"

text \<open>
  A directory with a Markdown file and a subdirectory that cannot be read, and the file.
\<close>

definition env_unreadable_subdirectory :: env where
  "env_unreadable_subdirectory =
     example_env\<lparr>Lstat_tree := \<lambda>p. Inr (Dir ''docs'' [File ''a.md'', DirUnreadable ''sub''])\<rparr>"

definition docs_world :: world where
  "docs_world = \<lparr>files = [''docs/a.md'' \<mapsto> ''A''], clock = 0, log = []\<rparr>"





text \<open>Files next to the working directory, and one far from it.\<close>

definition outside_world :: world where
  "outside_world =
     \<lparr>files = [''/home/u/project/a.md'' \<mapsto> ''sibling'', ''/home/u/projX/a.md'' \<mapsto> ''other'',
               ''/etc/notes/a.md'' \<mapsto> ''far'', ''a.md'' \<mapsto> ''here''],
      clock = 0, log = []\<rparr>"

text \<open>A batch of four tasks, one more than the semaphore admits.\<close>

definition four_tasks :: "FileToProcess list" where
  "four_tasks =
     map (\<lambda>n. \<lparr>Path = n, Content = ''text'', BackupPath = ''/home/u/proj/backup/'' @ n @ ''.bak''\<rparr>)
       [''a.md'', ''b.md'', ''c.md'', ''d.md'']"

text \<open>
  The service answers at once, and the file of the second task cannot be opened for
  writing.
\<close>

definition env_one_write_fails :: env where
  "env_one_write_fails =
     example_env\<lparr>http := \<lambda>c r. ok_response ''fixed'',
       write_result := \<lambda>c p. if p = ''sub/b.md'' then OpenFails else WriteOk\<rparr>"

section \<open>Theorems\<close>

subsection \<open>The status bar\<close>

lemma sint_of_nat_small:
  assumes "int k < 2 ^ 63"
  shows "sint (of_nat k :: 64 word) = int k"
proof -
  have "sint (word_of_int (int k) :: 64 word) = signed_take_bit 63 (int k)"
    using sint_sbintrunc' [of "int k", where ?'a = 64] by simp
  also have "\<dots> = int k"
    using assms by (intro signed_take_bit_int_eq_self) auto
  finally show ?thesis by simp
qed









subsection \<open>Rounding to \<^verbatim>\<open>float64\<close>\<close>

lemma rne_of_int [simp]: "rne (of_int n) = n"
  by (simp add: rne_def)

lemma rne_bounds: "real_of_int (rne q) \<le> q + 1 / 2 \<and> q - 1 / 2 \<le> real_of_int (rne q)"
  unfolding rne_def Let_def by (auto; linarith)

lemma rne_ge_int: "real_of_int n \<le> q \<Longrightarrow> n \<le> rne q"
proof -
  assume a: "real_of_int n \<le> q"
  then have "n \<le> \<lfloor>q\<rfloor>" by (simp add: le_floor_iff)
  moreover have "\<lfloor>q\<rfloor> \<le> rne q" by (simp add: rne_def Let_def)
  ultimately show ?thesis by simp
qed

lemma rne_le_int: "q \<le> real_of_int n \<Longrightarrow> rne q \<le> n"
proof (cases "q = real_of_int n")
  case True
  then show ?thesis by simp
next
  case False
  assume "q \<le> real_of_int n"
  with False have "q < real_of_int n" by simp
  then have "\<lfloor>q\<rfloor> < n" by (simp add: floor_less_iff)
  moreover have "rne q \<le> \<lfloor>q\<rfloor> + 1" by (simp add: rne_def Let_def)
  ultimately show ?thesis by simp
qed

lemma rne_mono: "q \<le> q' \<Longrightarrow> rne q \<le> rne q'"
proof -
  assume a: "q \<le> q'"
  have f: "\<lfloor>q\<rfloor> \<le> \<lfloor>q'\<rfloor>" using a by (rule floor_mono)
  show ?thesis
  proof (cases "\<lfloor>q\<rfloor> = \<lfloor>q'\<rfloor>")
    case True
    then show ?thesis using a unfolding rne_def Let_def by auto
  next
    case False
    then have "\<lfloor>q\<rfloor> + 1 \<le> \<lfloor>q'\<rfloor>" using f by simp
    moreover have "rne q \<le> \<lfloor>q\<rfloor> + 1" by (simp add: rne_def Let_def)
    moreover have "\<lfloor>q'\<rfloor> \<le> rne q'" by (simp add: rne_def Let_def)
    ultimately show ?thesis by simp
  qed
qed

text \<open>The exponent of the unit in the last place, by the binade of the number.\<close>

lemma scaled_ge:
  fixes x :: real
  assumes "- 1074 \<le> j"
  shows "(2 powi j \<le> \<bar>x\<bar>) = (2 ^ nat (j + 1074) \<le> \<lfloor>\<bar>x\<bar> * 2 ^ 1074\<rfloor>)"
proof -
  have p: "(2::real) powi j * 2 ^ 1074 = 2 ^ nat (j + 1074)"
  proof -
    have "(2::real) powi j * 2 powi 1074 = 2 powi (j + 1074)"
      by (simp add: power_int_add)
    also have "\<dots> = 2 ^ nat (j + 1074)"
      using assms by (simp add: power_int_def)
    finally show ?thesis by simp
  qed
  have "(2 powi j \<le> \<bar>x\<bar>) = (2 powi j * 2 ^ 1074 \<le> \<bar>x\<bar> * 2 ^ 1074)"
    by simp
  also have "\<dots> = (real_of_int (2 ^ nat (j + 1074)) \<le> \<bar>x\<bar> * 2 ^ 1074)"
    unfolding p by simp
  also have "\<dots> = (2 ^ nat (j + 1074) \<le> \<lfloor>\<bar>x\<bar> * 2 ^ 1074\<rfloor>)"
    by (rule le_floor_iff [symmetric])
  finally show ?thesis .
qed

lemma scaled_less:
  fixes x :: real
  assumes "- 1074 \<le> j"
  shows "(\<bar>x\<bar> < 2 powi j) = (\<lfloor>\<bar>x\<bar> * 2 ^ 1074\<rfloor> < 2 ^ nat (j + 1074))"
  using scaled_ge [OF assms, of x] by (simp add: not_le [symmetric])

lemma ulp_exp_unique:
  assumes "- 1074 \<le> k" and "2 powi (k + 52) \<le> \<bar>x\<bar>" and "\<bar>x\<bar> < 2 powi (k + 53)"
  shows "ulp_exp x = k"
proof -
  define m where "m = \<lfloor>\<bar>x\<bar> * 2 ^ 1074\<rfloor>"
  have lo: "2 ^ nat (k + 1126) \<le> m"
    using scaled_ge [of "k + 52" x] assms(1,2) by (simp add: m_def add.commute add.left_commute)
  have hi: "m < 2 ^ nat (k + 1127)"
    using scaled_less [of "k + 53" x] assms(1,3) by (simp add: m_def add.commute add.left_commute)
  have "bitlen m \<le> k + 1127"
    using hi assms(1) by (simp add: bitlen_le_iff_power)
  moreover have "k + 1127 \<le> bitlen m"
  proof -
    have "nat (k + 1127) - 1 = nat (k + 1126)" using assms(1) by simp
    then show ?thesis using lo by (simp add: bitlen_ge_iff_power)
  qed
  ultimately have "bitlen m = k + 1127" by simp
  then show ?thesis using assms(1) by (simp add: ulp_exp_def m_def)
qed

lemma ulp_exp_ge: "- 1074 \<le> ulp_exp x"
  by (simp add: ulp_exp_def)

lemma ulp_exp_upper: "\<bar>x\<bar> < 2 powi (ulp_exp x + 53)"
proof -
  define m where "m = \<lfloor>\<bar>x\<bar> * 2 ^ 1074\<rfloor>"
  have "bitlen m \<le> ulp_exp x + 1127" by (simp add: ulp_exp_def m_def)
  then have "m < 2 ^ nat (ulp_exp x + 1127)" by (simp add: bitlen_le_iff_power)
  then show ?thesis
    using scaled_less [of "ulp_exp x + 53" x] ulp_exp_ge [of x]
    by (simp add: m_def add.commute add.left_commute)
qed

lemma ulp_exp_lower:
  assumes "- 1074 < ulp_exp x"
  shows "2 powi (ulp_exp x + 52) \<le> \<bar>x\<bar>"
proof -
  define m where "m = \<lfloor>\<bar>x\<bar> * 2 ^ 1074\<rfloor>"
  have e: "ulp_exp x = bitlen m - 1127" using assms by (simp add: ulp_exp_def m_def)
  then have "ulp_exp x + 1127 \<le> bitlen m" by simp
  then have "2 ^ (nat (ulp_exp x + 1127) - 1) \<le> m"
    using assms by (simp add: bitlen_ge_iff_power)
  moreover have "nat (ulp_exp x + 1127) - 1 = nat (ulp_exp x + 1126)" using assms by simp
  ultimately have "2 ^ nat (ulp_exp x + 1126) \<le> m" by simp
  then show ?thesis
    using scaled_ge [of "ulp_exp x + 52" x] assms
    by (simp add: m_def add.commute add.left_commute)
qed

lemma bitlen_mono: "m \<le> n \<Longrightarrow> bitlen m \<le> bitlen n"
proof -
  assume a: "m \<le> n"
  have "n < 2 ^ nat (bitlen n)"
    using bitlen_le_iff_power [of n "bitlen n"] by simp
  then have "m < 2 ^ nat (bitlen n)" using a by simp
  then show ?thesis by (simp add: bitlen_le_iff_power bitlen_nonneg)
qed

lemma ulp_exp_mono: "\<bar>x\<bar> \<le> \<bar>y\<bar> \<Longrightarrow> ulp_exp x \<le> ulp_exp y"
proof -
  assume a: "\<bar>x\<bar> \<le> \<bar>y\<bar>"
  then have "\<lfloor>\<bar>x\<bar> * 2 ^ 1074\<rfloor> \<le> \<lfloor>\<bar>y\<bar> * 2 ^ 1074\<rfloor>"
    by (intro floor_mono) simp
  then show ?thesis
    unfolding ulp_exp_def using bitlen_mono by fastforce
qed

lemma round_pos_nonneg: "0 \<le> x \<Longrightarrow> 0 \<le> round_pos x"
proof -
  assume "0 \<le> x"
  then have "real_of_int 0 \<le> x / 2 powi ulp_exp x" by simp
  then have "0 \<le> rne (x / 2 powi ulp_exp x)" by (rule rne_ge_int)
  then show ?thesis by (simp add: round_pos_def)
qed

lemma round_pos_mono:
  assumes "0 \<le> x" and "x \<le> y"
  shows "round_pos x \<le> round_pos y"
proof -
  have k: "ulp_exp x \<le> ulp_exp y" using assms by (intro ulp_exp_mono) simp
  show ?thesis
  proof (cases "ulp_exp x = ulp_exp y")
    case True
    have "x / 2 powi ulp_exp y \<le> y / 2 powi ulp_exp y"
      using assms(2) by (simp add: divide_right_mono)
    then have "rne (x / 2 powi ulp_exp y) \<le> rne (y / 2 powi ulp_exp y)" by (rule rne_mono)
    then show ?thesis by (simp add: round_pos_def True)
  next
    case False
    then have lt: "ulp_exp x + 1 \<le> ulp_exp y" using k by simp
    then have ny: "- 1074 < ulp_exp y" using ulp_exp_ge [of x] by simp
    have "x < 2 powi (ulp_exp x + 53)" using ulp_exp_upper [of x] assms(1) by simp
    then have "x / 2 powi ulp_exp x \<le> 2 powi 53"
      by (simp add: power_int_add field_simps)
    then have "x / 2 powi ulp_exp x \<le> real_of_int (2 ^ 53)" by simp
    then have "rne (x / 2 powi ulp_exp x) \<le> 2 ^ 53" by (rule rne_le_int)
    then have "real_of_int (rne (x / 2 powi ulp_exp x)) \<le> 2 ^ 53"
      by (metis of_int_le_iff of_int_numeral of_int_power)
    then have "round_pos x \<le> 2 ^ 53 * 2 powi ulp_exp x"
      by (simp add: round_pos_def)
    also have "\<dots> = 2 powi (ulp_exp x + 1 + 52)"
      by (simp add: power_int_add)
    also have "\<dots> \<le> 2 powi (ulp_exp y + 52)"
      using lt by (intro power_int_increasing) simp_all
    finally have a: "round_pos x \<le> 2 powi (ulp_exp y + 52)" .
    have "0 \<le> y" using assms by simp
    then have "2 powi (ulp_exp y + 52) \<le> y" using ulp_exp_lower [OF ny] by simp
    then have "2 powi 52 \<le> y / 2 powi ulp_exp y"
      by (simp add: power_int_add field_simps)
    then have "real_of_int (2 ^ 52) \<le> y / 2 powi ulp_exp y" by simp
    then have "2 ^ 52 \<le> rne (y / 2 powi ulp_exp y)" by (rule rne_ge_int)
    then have "2 ^ 52 \<le> real_of_int (rne (y / 2 powi ulp_exp y))"
      by (metis of_int_le_iff of_int_numeral of_int_power)
    then have "2 ^ 52 * 2 powi ulp_exp y \<le> round_pos y"
      by (simp add: round_pos_def)
    then have b: "2 powi (ulp_exp y + 52) \<le> round_pos y"
      by (simp add: power_int_add mult.commute)
    from a b show ?thesis by simp
  qed
qed

lemma round64_mono: "x \<le> y \<Longrightarrow> round64 x \<le> round64 y"
proof -
  assume a: "x \<le> y"
  consider "x < 0" "y < 0" | "x < 0" "0 \<le> y" | "0 \<le> x" by linarith
  then show ?thesis
  proof cases
    case 1
    then have "round_pos (- y) \<le> round_pos (- x)" using a by (intro round_pos_mono) simp_all
    then show ?thesis using 1 by (simp add: round64_def)
  next
    case 2
    then show ?thesis
      using round_pos_nonneg [of "- x"] round_pos_nonneg [of y] by (simp add: round64_def)
  next
    case 3
    then show ?thesis using a round_pos_mono [of x y] by (simp add: round64_def)
  qed
qed

lemma round64_eval:
  assumes "0 \<le> x" and "- 1074 \<le> k" and "2 powi (k + 52) \<le> x" and "x < 2 powi (k + 53)"
  shows "round64 x = real_of_int (rne (x / 2 powi k)) * 2 powi k"
  using ulp_exp_unique [of k x] assms by (simp add: round64_def round_pos_def)

lemma rne_0 [simp]: "rne 0 = 0"
  by (simp add: rne_def)

lemma round64_0 [simp]: "round64 0 = 0"
  by (simp add: round64_def round_pos_def)

text \<open>
  How to evaluate a rounding: name the binade. The constants of the delay follow.
\<close>

lemma round64_neg: "round64 (- x) = - round64 x"
  by (cases "x = 0") (auto simp: round64_def round_pos_def)

lemma round64_pow2: "round64 (2 ^ n) = 2 ^ n"
proof -
  have "round64 (2 ^ n) = real_of_int (rne (2 ^ n / 2 powi (int n - 52))) * 2 powi (int n - 52)"
    by (rule round64_eval) (simp_all add: power_int_add)
  also have "(2::real) ^ n / 2 powi (int n - 52) = real_of_int (2 ^ 52)"
    by (simp add: power_int_diff)
  also have "real_of_int (rne (real_of_int (2 ^ 52))) * 2 powi (int n - 52) = 2 ^ n"
    unfolding rne_of_int by (simp add: power_int_diff)
  finally show ?thesis .
qed

lemma float64_0_4: "round64 0.4 = 7205759403792794 / 2 ^ 54"
  by (subst round64_eval [where k = "- 54"]) (simp_all add: rne_def)

lemma float64_0_2: "round64 0.2 = 7205759403792794 / 2 ^ 55"
  by (subst round64_eval [where k = "- 55"]) (simp_all add: rne_def)

text \<open>The jitter factor at the smallest random number, 0.\<close>

lemma lo2: "round64 (0 - 7205759403792794 / 2 ^ 55) = - (7205759403792794 / 2 ^ 55)"
proof -
  have "round64 (7205759403792794 / 2 ^ 55) = 7205759403792794 / 2 ^ 55"
    by (subst round64_eval [where k = "- 55"]) (simp_all add: rne_def)
  then show ?thesis using round64_neg [of "7205759403792794 / 2 ^ 55"] by simp
qed

lemma lo3: "round64 (1 + - (7205759403792794 / 2 ^ 55)) = 7205759403792794 / 2 ^ 53"
  by (subst round64_eval [where k = "- 53"]) (simp_all add: rne_def)

text \<open>The jitter factor at the largest random number, \<open>1 - 2\<^sup>-\<^sup>5\<^sup>3\<close>.\<close>

lemma hi1: "round64 ((1 - 1 / 2 ^ 53) * (7205759403792794 / 2 ^ 54)) = 7205759403792793 / 2 ^ 54"
  by (subst round64_eval [where k = "- 54"]) (simp_all add: rne_def)

lemma hi2: "round64 (7205759403792793 / 2 ^ 54 - 7205759403792794 / 2 ^ 55) = 7205759403792792 / 2 ^ 55"
  by (subst round64_eval [where k = "- 55"]) (simp_all add: rne_def)

lemma hi3: "round64 (1 + 7205759403792792 / 2 ^ 55) = 5404319552844595 / 2 ^ 52"
  by (subst round64_eval [where k = "- 52"]) (simp_all add: rne_def)

lemma float64_below_1:
  assumes "is_float64 r" and "0 \<le> r" and "r < 1"
  shows "r \<le> 1 - 1 / 2 ^ 53"
proof (rule ccontr)
  assume "\<not> r \<le> 1 - 1 / 2 ^ 53"
  then have gt: "1 - 1 / 2 ^ 53 < r" by simp
  have "round64 r = real_of_int (rne (r / 2 powi (- 53))) * 2 powi (- 53)"
    using gt assms(3) by (intro round64_eval) simp_all
  then have "r = real_of_int (rne (r / 2 powi (- 53))) * 2 powi (- 53)"
    using assms(1) by (simp add: is_float64_def)
  then have "r * 2 ^ 53 = real_of_int (rne (r / 2 powi (- 53)))"
    by (simp add: power_int_minus field_simps)
  then obtain n :: int where n: "r * 2 ^ 53 = real_of_int n" by blast
  have "real_of_int (2 ^ 53 - 1) < real_of_int n"
    using gt unfolding n [symmetric] by (simp add: field_simps)
  then have a: "2 ^ 53 - 1 < n" by (simp only: of_int_less_iff)
  have "real_of_int n < real_of_int (2 ^ 53)"
    using assms(3) unfolding n [symmetric] by simp
  then have b: "n < 2 ^ 53" by (simp only: of_int_less_iff)
  from a b show False by simp
qed

lemma jitter_factor_bounds:
  assumes "is_float64 r" and "0 \<le> r" and "r < 1"
  shows "7205759403792794 / 2 ^ 53 \<le> fadd 1 (fsub (fmul r (round64 0.4)) (round64 0.2)) \<and>
         fadd 1 (fsub (fmul r (round64 0.4)) (round64 0.2)) \<le> 5404319552844595 / 2 ^ 52"
proof -
  let ?c4 = "7205759403792794 / 2 ^ 54 :: real"
  let ?c2 = "7205759403792794 / 2 ^ 55 :: real"
  have r: "r \<le> 1 - 1 / 2 ^ 53" using assms by (rule float64_below_1)
  have "round64 (0 * ?c4) \<le> round64 (r * ?c4)"
    using assms(2) by (intro round64_mono mult_right_mono) simp_all
  then have l1: "0 \<le> fmul r ?c4" by (simp add: fmul_def)
  have "round64 (r * ?c4) \<le> round64 ((1 - 1 / 2 ^ 53) * ?c4)"
    using r by (intro round64_mono mult_right_mono) simp_all
  then have h1: "fmul r ?c4 \<le> 7205759403792793 / 2 ^ 54"
    unfolding hi1 by (simp add: fmul_def)
  have "round64 (0 - ?c2) \<le> round64 (fmul r ?c4 - ?c2)"
    using l1 by (intro round64_mono) simp
  then have l2: "- ?c2 \<le> fsub (fmul r ?c4) ?c2"
    unfolding lo2 by (simp add: fsub_def)
  have "round64 (fmul r ?c4 - ?c2) \<le> round64 (7205759403792793 / 2 ^ 54 - ?c2)"
    using h1 by (intro round64_mono) simp
  then have h2: "fsub (fmul r ?c4) ?c2 \<le> 7205759403792792 / 2 ^ 55"
    unfolding hi2 by (simp add: fsub_def)
  have "round64 (1 + - ?c2) \<le> round64 (1 + fsub (fmul r ?c4) ?c2)"
    using l2 by (intro round64_mono) simp
  then have l3: "7205759403792794 / 2 ^ 53 \<le> fadd 1 (fsub (fmul r ?c4) ?c2)"
    unfolding lo3 by (simp add: fadd_def)
  have "round64 (1 + fsub (fmul r ?c4) ?c2) \<le> round64 (1 + 7205759403792792 / 2 ^ 55)"
    using h2 by (intro round64_mono) simp
  then have h3: "fadd 1 (fsub (fmul r ?c4) ?c2) \<le> 5404319552844595 / 2 ^ 52"
    unfolding hi3 by (simp add: fadd_def)
  show ?thesis unfolding float64_0_4 float64_0_2 using l3 h3 by simp
qed

lemma lo4:
  "round64 (1 * (7205759403792794 / 2 ^ 53)) = 7205759403792794 / 2 ^ 53"
  "round64 (2 * (7205759403792794 / 2 ^ 53)) = 7205759403792794 / 2 ^ 52"
  "round64 (4 * (7205759403792794 / 2 ^ 53)) = 7205759403792794 / 2 ^ 51"
  "round64 (8 * (7205759403792794 / 2 ^ 53)) = 7205759403792794 / 2 ^ 50"
  "round64 (16 * (7205759403792794 / 2 ^ 53)) = 7205759403792794 / 2 ^ 49"
  "round64 (30 * (7205759403792794 / 2 ^ 53)) = 24"
proof -
  show "round64 (1 * (7205759403792794 / 2 ^ 53)) = 7205759403792794 / 2 ^ 53"
    by (subst round64_eval [where k = "- 53"]) (simp_all add: rne_def)
  show "round64 (2 * (7205759403792794 / 2 ^ 53)) = 7205759403792794 / 2 ^ 52"
    by (subst round64_eval [where k = "- 52"]) (simp_all add: rne_def)
  show "round64 (4 * (7205759403792794 / 2 ^ 53)) = 7205759403792794 / 2 ^ 51"
    by (subst round64_eval [where k = "- 51"]) (simp_all add: rne_def)
  show "round64 (8 * (7205759403792794 / 2 ^ 53)) = 7205759403792794 / 2 ^ 50"
    by (subst round64_eval [where k = "- 50"]) (simp_all add: rne_def)
  show "round64 (16 * (7205759403792794 / 2 ^ 53)) = 7205759403792794 / 2 ^ 49"
    by (subst round64_eval [where k = "- 49"]) (simp_all add: rne_def)
  show "round64 (30 * (7205759403792794 / 2 ^ 53)) = 24"
    by (subst round64_eval [where k = "- 48"]) (simp_all add: rne_def)
qed

lemma lo5:
  "round64 (7205759403792794 / 2 ^ 53 * 1000000000) = 800000000"
  "round64 (7205759403792794 / 2 ^ 52 * 1000000000) = 1600000000"
  "round64 (7205759403792794 / 2 ^ 51 * 1000000000) = 3200000000"
  "round64 (7205759403792794 / 2 ^ 50 * 1000000000) = 6400000000"
  "round64 (7205759403792794 / 2 ^ 49 * 1000000000) = 12800000000"
  "round64 (24 * 1000000000) = 24000000000"
proof -
  show "round64 (7205759403792794 / 2 ^ 53 * 1000000000) = 800000000"
    by (subst round64_eval [where k = "- 23"]) (simp_all add: rne_def)
  show "round64 (7205759403792794 / 2 ^ 52 * 1000000000) = 1600000000"
    by (subst round64_eval [where k = "- 22"]) (simp_all add: rne_def)
  show "round64 (7205759403792794 / 2 ^ 51 * 1000000000) = 3200000000"
    by (subst round64_eval [where k = "- 21"]) (simp_all add: rne_def)
  show "round64 (7205759403792794 / 2 ^ 50 * 1000000000) = 6400000000"
    by (subst round64_eval [where k = "- 20"]) (simp_all add: rne_def)
  show "round64 (7205759403792794 / 2 ^ 49 * 1000000000) = 12800000000"
    by (subst round64_eval [where k = "- 19"]) (simp_all add: rne_def)
  show "round64 (24 * 1000000000) = 24000000000"
    by (subst round64_eval [where k = "- 18"]) (simp_all add: rne_def)
qed

lemma hi4:
  "round64 (1 * (5404319552844595 / 2 ^ 52)) = 5404319552844595 / 2 ^ 52"
  "round64 (2 * (5404319552844595 / 2 ^ 52)) = 5404319552844595 / 2 ^ 51"
  "round64 (4 * (5404319552844595 / 2 ^ 52)) = 5404319552844595 / 2 ^ 50"
  "round64 (8 * (5404319552844595 / 2 ^ 52)) = 5404319552844595 / 2 ^ 49"
  "round64 (16 * (5404319552844595 / 2 ^ 52)) = 5404319552844595 / 2 ^ 48"
  "round64 (30 * (5404319552844595 / 2 ^ 52)) = 36"
proof -
  show "round64 (1 * (5404319552844595 / 2 ^ 52)) = 5404319552844595 / 2 ^ 52"
    by (subst round64_eval [where k = "- 52"]) (simp_all add: rne_def)
  show "round64 (2 * (5404319552844595 / 2 ^ 52)) = 5404319552844595 / 2 ^ 51"
    by (subst round64_eval [where k = "- 51"]) (simp_all add: rne_def)
  show "round64 (4 * (5404319552844595 / 2 ^ 52)) = 5404319552844595 / 2 ^ 50"
    by (subst round64_eval [where k = "- 50"]) (simp_all add: rne_def)
  show "round64 (8 * (5404319552844595 / 2 ^ 52)) = 5404319552844595 / 2 ^ 49"
    by (subst round64_eval [where k = "- 49"]) (simp_all add: rne_def)
  show "round64 (16 * (5404319552844595 / 2 ^ 52)) = 5404319552844595 / 2 ^ 48"
    by (subst round64_eval [where k = "- 48"]) (simp_all add: rne_def)
  show "round64 (30 * (5404319552844595 / 2 ^ 52)) = 36"
    by (subst round64_eval [where k = "- 47"]) (simp_all add: rne_def)
qed

lemma hi5:
  "round64 (5404319552844595 / 2 ^ 52 * 1000000000) = 1200000000"
  "round64 (5404319552844595 / 2 ^ 51 * 1000000000) = 2400000000"
  "round64 (5404319552844595 / 2 ^ 50 * 1000000000) = 4800000000"
  "round64 (5404319552844595 / 2 ^ 49 * 1000000000) = 9600000000"
  "round64 (5404319552844595 / 2 ^ 48 * 1000000000) = 19200000000"
  "round64 (36 * 1000000000) = 36000000000"
proof -
  show "round64 (5404319552844595 / 2 ^ 52 * 1000000000) = 1200000000"
    by (subst round64_eval [where k = "- 22"]) (simp_all add: rne_def)
  show "round64 (5404319552844595 / 2 ^ 51 * 1000000000) = 2400000000"
    by (subst round64_eval [where k = "- 21"]) (simp_all add: rne_def)
  show "round64 (5404319552844595 / 2 ^ 50 * 1000000000) = 4800000000"
    by (subst round64_eval [where k = "- 20"]) (simp_all add: rne_def)
  show "round64 (5404319552844595 / 2 ^ 49 * 1000000000) = 9600000000"
    by (subst round64_eval [where k = "- 19"]) (simp_all add: rne_def)
  show "round64 (5404319552844595 / 2 ^ 48 * 1000000000) = 19200000000"
    by (subst round64_eval [where k = "- 18"]) (simp_all add: rne_def)
  show "round64 (36 * 1000000000) = 36000000000"
    by (subst round64_eval [where k = "- 17"]) (simp_all add: rne_def)
qed

lemma lo45:
  "round64 (round64 (1 * (7205759403792794 / 2 ^ 53)) * 1000000000) = 0.8 * (1 * 1000000000)"
  "round64 (round64 (2 * (7205759403792794 / 2 ^ 53)) * 1000000000) = 0.8 * (2 * 1000000000)"
  "round64 (round64 (4 * (7205759403792794 / 2 ^ 53)) * 1000000000) = 0.8 * (4 * 1000000000)"
  "round64 (round64 (8 * (7205759403792794 / 2 ^ 53)) * 1000000000) = 0.8 * (8 * 1000000000)"
  "round64 (round64 (16 * (7205759403792794 / 2 ^ 53)) * 1000000000) = 0.8 * (16 * 1000000000)"
  "round64 (round64 (30 * (7205759403792794 / 2 ^ 53)) * 1000000000) = 0.8 * (30 * 1000000000)"
  unfolding lo4 lo5 by simp_all

lemma hi45:
  "round64 (round64 (1 * (5404319552844595 / 2 ^ 52)) * 1000000000) = 1.2 * (1 * 1000000000)"
  "round64 (round64 (2 * (5404319552844595 / 2 ^ 52)) * 1000000000) = 1.2 * (2 * 1000000000)"
  "round64 (round64 (4 * (5404319552844595 / 2 ^ 52)) * 1000000000) = 1.2 * (4 * 1000000000)"
  "round64 (round64 (8 * (5404319552844595 / 2 ^ 52)) * 1000000000) = 1.2 * (8 * 1000000000)"
  "round64 (round64 (16 * (5404319552844595 / 2 ^ 52)) * 1000000000) = 1.2 * (16 * 1000000000)"
  "round64 (round64 (30 * (5404319552844595 / 2 ^ 52)) * 1000000000) = 1.2 * (30 * 1000000000)"
  unfolding hi4 hi5 by simp_all

text \<open>
  From the bounds of the jitter factor to those of the delay, for a number of seconds \<open>B\<close>
  at which the four roundings are known.
\<close>

lemma delay_bounds:
  assumes t: "7205759403792794 / 2 ^ 53 \<le> t" "t \<le> 5404319552844595 / 2 ^ 52"
    and B: "0 \<le> B"
    and lo: "round64 (round64 (B * (7205759403792794 / 2 ^ 53)) * 1000000000) = 0.8 * (B * 1000000000)"
    and hi: "round64 (round64 (B * (5404319552844595 / 2 ^ 52)) * 1000000000) = 1.2 * (B * 1000000000)"
    and int: "0.8 * (B * 1000000000) = real_of_int m"
  shows "0.8 * (B * 1000000000) \<le> real_of_int (time_Duration (fmul (fmul B t) 1000000000)) \<and>
         real_of_int (time_Duration (fmul (fmul B t) 1000000000)) \<le> 1.2 * (B * 1000000000)"
proof -
  define d where "d = fmul (fmul B t) 1000000000"
  have "round64 (B * (7205759403792794 / 2 ^ 53)) \<le> round64 (B * t)"
    using t(1) B by (intro round64_mono mult_left_mono)
  then have "round64 (B * (7205759403792794 / 2 ^ 53)) * 1000000000
      \<le> round64 (B * t) * 1000000000"
    by simp
  then have "round64 (round64 (B * (7205759403792794 / 2 ^ 53)) * 1000000000)
      \<le> round64 (round64 (B * t) * 1000000000)"
    by (rule round64_mono)
  then have l: "0.8 * (B * 1000000000) \<le> d"
    unfolding lo by (simp add: d_def fmul_def)
  have "round64 (B * t) \<le> round64 (B * (5404319552844595 / 2 ^ 52))"
    using t(2) B by (intro round64_mono mult_left_mono)
  then have "round64 (B * t) * 1000000000
      \<le> round64 (B * (5404319552844595 / 2 ^ 52)) * 1000000000"
    by simp
  then have "round64 (round64 (B * t) * 1000000000)
      \<le> round64 (round64 (B * (5404319552844595 / 2 ^ 52)) * 1000000000)"
    by (rule round64_mono)
  then have h: "d \<le> 1.2 * (B * 1000000000)"
    unfolding hi by (simp add: d_def fmul_def)
  have nn: "0 \<le> d" using l B by simp
  then have td: "time_Duration d = \<lfloor>d\<rfloor>" by (simp add: time_Duration_def)
  have "real_of_int m \<le> d" using l int by simp
  then have "m \<le> \<lfloor>d\<rfloor>" by (simp add: le_floor_iff)
  then have "real_of_int m \<le> real_of_int \<lfloor>d\<rfloor>" by (simp only: of_int_le_iff)
  then have a: "0.8 * (B * 1000000000) \<le> real_of_int \<lfloor>d\<rfloor>" using int by simp
  have "real_of_int \<lfloor>d\<rfloor> \<le> d" by (rule of_int_floor_le)
  then have b: "real_of_int \<lfloor>d\<rfloor> \<le> 1.2 * (B * 1000000000)" using h by (rule order_trans)
  show ?thesis
    unfolding d_def [symmetric] td using a b by (rule conjI)
qed

lemma backoffSeconds_cases:
  "(n < 5 \<and> (if fmul InitialBackoff (2 ^ n) > MaxBackoff then MaxBackoff
              else fmul InitialBackoff (2 ^ n)) = 2 ^ n \<and>
     min (InitialBackoff * 2 ^ n) MaxBackoff = 2 ^ n) \<or>
   (5 \<le> n \<and> (if fmul InitialBackoff (2 ^ n) > MaxBackoff then MaxBackoff
               else fmul InitialBackoff (2 ^ n)) = 30 \<and>
     min (InitialBackoff * 2 ^ n) MaxBackoff = 30)"
proof (cases "n < 5")
  case True
  then have "n \<in> {0, 1, 2, 3, 4}" by auto
  then have "(2::real) ^ n \<le> 30" by auto
  then show ?thesis
    using True by (simp add: fmul_def InitialBackoff_def MaxBackoff_def round64_pow2)
next
  case False
  then have "(2::real) ^ 5 \<le> 2 ^ n" by (intro power_increasing) simp_all
  then have "(30::real) < 2 ^ n" by simp
  then show ?thesis
    using False by (simp add: fmul_def InitialBackoff_def MaxBackoff_def round64_pow2)
qed

lemma backoff_bounds:
  assumes "is_float64 r" and "0 \<le> r" and "r < 1"
  shows "0.8 * (min (InitialBackoff * 2 ^ n) MaxBackoff * 1000000000)
           \<le> real_of_int (backoffWithJitter n r) \<and>
         real_of_int (backoffWithJitter n r)
           \<le> 1.2 * (min (InitialBackoff * 2 ^ n) MaxBackoff * 1000000000)"
proof -
  define t where "t = fadd 1 (fsub (fmul r (round64 0.4)) (round64 0.2))"
  have t: "7205759403792794 / 2 ^ 53 \<le> t" "t \<le> 5404319552844595 / 2 ^ 52"
    using jitter_factor_bounds [OF assms] by (simp_all add: t_def)
  have d: "0.8 * (B * 1000000000) \<le> real_of_int (time_Duration (fmul (fmul B t) 1000000000)) \<and>
      real_of_int (time_Duration (fmul (fmul B t) 1000000000)) \<le> 1.2 * (B * 1000000000)"
    if B: "B \<in> {1, 2, 4, 8, 16, 30}" for B :: real
  proof -
    consider "B = 1" | "B = 2" | "B = 4" | "B = 8" | "B = 16" | "B = 30" using B by auto
    then show ?thesis
    proof cases
      case 1
      show ?thesis unfolding 1
        by (rule delay_bounds [OF t _ lo45(1) hi45(1), where m = 800000000]) simp_all
    next
      case 2
      show ?thesis unfolding 2
        by (rule delay_bounds [OF t _ lo45(2) hi45(2), where m = 1600000000]) simp_all
    next
      case 3
      show ?thesis unfolding 3
        by (rule delay_bounds [OF t _ lo45(3) hi45(3), where m = 3200000000]) simp_all
    next
      case 4
      show ?thesis unfolding 4
        by (rule delay_bounds [OF t _ lo45(4) hi45(4), where m = 6400000000]) simp_all
    next
      case 5
      show ?thesis unfolding 5
        by (rule delay_bounds [OF t _ lo45(5) hi45(5), where m = 12800000000]) simp_all
    next
      case 6
      show ?thesis unfolding 6
        by (rule delay_bounds [OF t _ lo45(6) hi45(6), where m = 24000000000]) simp_all
    qed
  qed
  from backoffSeconds_cases [of n] show ?thesis
  proof
    assume a: "n < 5 \<and> (if fmul InitialBackoff (2 ^ n) > MaxBackoff then MaxBackoff
              else fmul InitialBackoff (2 ^ n)) = 2 ^ n \<and>
     min (InitialBackoff * 2 ^ n) MaxBackoff = 2 ^ n"
    then have "n \<in> {0, 1, 2, 3, 4}" by auto
    then have "(2::real) ^ n \<in> {1, 2, 4, 8, 16, 30}" by auto
    from d [OF this] a show ?thesis
      by (simp add: backoffWithJitter_def Let_def t_def)
  next
    assume a: "5 \<le> n \<and> (if fmul InitialBackoff (2 ^ n) > MaxBackoff then MaxBackoff
               else fmul InitialBackoff (2 ^ n)) = 30 \<and>
     min (InitialBackoff * 2 ^ n) MaxBackoff = 30"
    from d [of 30] a show ?thesis
      by (simp add: backoffWithJitter_def Let_def t_def)
  qed
qed

lemma round64_nat:
  "round64 1 = 1" "round64 2 = 2" "round64 4 = 4" "round64 8 = 8" "round64 16 = 16"
  using round64_pow2 [of 0] round64_pow2 [of 1] round64_pow2 [of 2] round64_pow2 [of 3]
    round64_pow2 [of 4]
  by simp_all

lemma half_float64: "is_float64 (1 / 2)"
  unfolding is_float64_def
  by (subst round64_eval [where k = "- 53"]) (simp_all add: rne_def)

lemma half_jitter:
  "fadd 1 (fsub (fmul (1 / 2) (round64 0.4)) (round64 0.2)) = 1"
proof -
  have a: "fmul (1 / 2) (round64 0.4) = 7205759403792794 / 2 ^ 55"
    unfolding fmul_def float64_0_4
    by (subst round64_eval [where k = "- 55"]) (simp_all add: rne_def)
  have b: "fsub (7205759403792794 / 2 ^ 55) (round64 0.2) = 0"
    unfolding fsub_def float64_0_2 by simp
  have c: "fadd 1 0 = 1"
    unfolding fadd_def by (simp add: round64_nat)
  show ?thesis unfolding a b c ..
qed

lemma seconds_float64:
  "round64 1000000000 = 1000000000"
  "round64 2000000000 = 2000000000"
  "round64 4000000000 = 4000000000"
  "round64 8000000000 = 8000000000"
  "round64 16000000000 = 16000000000"
proof -
  show "round64 1000000000 = 1000000000"
    by (subst round64_eval [where k = "- 23"]) (simp_all add: rne_def)
  show "round64 2000000000 = 2000000000"
    by (subst round64_eval [where k = "- 22"]) (simp_all add: rne_def)
  show "round64 4000000000 = 4000000000"
    by (subst round64_eval [where k = "- 21"]) (simp_all add: rne_def)
  show "round64 8000000000 = 8000000000"
    by (subst round64_eval [where k = "- 20"]) (simp_all add: rne_def)
  show "round64 16000000000 = 16000000000"
    by (subst round64_eval [where k = "- 19"]) (simp_all add: rne_def)
qed

lemma backoffWithJitter_small:
  assumes "n < 5"
  shows "backoffWithJitter n r =
     time_Duration (fmul (fmul (2 ^ n) (fadd 1 (fsub (fmul r (round64 0.4)) (round64 0.2))))
       1000000000)"
proof -
  have "(if fmul InitialBackoff (2 ^ n) > MaxBackoff then MaxBackoff
         else fmul InitialBackoff (2 ^ n)) = 2 ^ n"
    using backoffSeconds_cases [of n] assms by auto
  then show ?thesis by (simp add: backoffWithJitter_def Let_def)
qed

lemma backoff_half_gen:
  assumes "n < 5" and "round64 (2 ^ n * 1000000000) = 2 ^ n * 1000000000"
  shows "backoffWithJitter n (1 / 2) = 2 ^ n * 1000000000"
proof -
  have "backoffWithJitter n (1 / 2) =
      time_Duration (fmul (fmul (2 ^ n) (fadd 1 (fsub (fmul (1 / 2) (round64 0.4))
        (round64 0.2)))) 1000000000)"
    using assms(1) by (rule backoffWithJitter_small)
  also have "\<dots> = time_Duration (fmul (fmul (2 ^ n) 1) 1000000000)"
    unfolding half_jitter ..
  also have "\<dots> = time_Duration (2 ^ n * 1000000000)"
    using assms(2) by (simp add: fmul_def round64_pow2)
  also have "\<dots> = \<lfloor>real_of_int (2 ^ n * 1000000000)\<rfloor>"
    by (simp add: time_Duration_def)
  also have "\<dots> = 2 ^ n * 1000000000"
    by (rule floor_of_int)
  finally show ?thesis .
qed

lemma backoff_half:
  "backoffWithJitter 0 (1 / 2) = 1000000000"
  "backoffWithJitter (Suc 0) (1 / 2) = 2000000000"
  "backoffWithJitter 2 (1 / 2) = 4000000000"
  "backoffWithJitter 3 (1 / 2) = 8000000000"
  "backoffWithJitter 4 (1 / 2) = 16000000000"
  using backoff_half_gen [of 0] backoff_half_gen [of "Suc 0"] backoff_half_gen [of 2]
    backoff_half_gen [of 3] backoff_half_gen [of 4]
  by (simp_all add: seconds_float64)

text \<open>The ends of the interval are reached.\<close>

lemma backoff_extremes:
  "backoffWithJitter 0 0 = 800000000"
  "backoffWithJitter 0 (1 - 1 / 2 ^ 53) = 1200000000"
proof -
  have l1: "fmul 0 (round64 0.4) = 0" by (simp add: fmul_def)
  have l2: "fsub 0 (round64 0.2) = - (7205759403792794 / 2 ^ 55)"
    unfolding fsub_def float64_0_2 by (rule lo2)
  have l3: "fadd 1 (- (7205759403792794 / 2 ^ 55)) = 7205759403792794 / 2 ^ 53"
    unfolding fadd_def by (rule lo3)
  have l4: "fmul (2 ^ 0) (7205759403792794 / 2 ^ 53) = 7205759403792794 / 2 ^ 53"
    unfolding fmul_def power_0 by (rule lo4(1))
  have l5: "fmul (7205759403792794 / 2 ^ 53) 1000000000 = 800000000"
    unfolding fmul_def by (rule lo5(1))
  have "backoffWithJitter 0 0 =
      time_Duration (fmul (fmul (2 ^ 0) (fadd 1 (fsub (fmul 0 (round64 0.4))
        (round64 0.2)))) 1000000000)"
    by (rule backoffWithJitter_small) simp
  also have "\<dots> = time_Duration 800000000"
    unfolding l1 l2 l3 l4 l5 ..
  also have "\<dots> = 800000000" by (simp add: time_Duration_def)
  finally show "backoffWithJitter 0 0 = 800000000" .
  have h1: "fmul (1 - 1 / 2 ^ 53) (round64 0.4) = 7205759403792793 / 2 ^ 54"
    unfolding fmul_def float64_0_4 by (rule hi1)
  have h2: "fsub (7205759403792793 / 2 ^ 54) (round64 0.2) = 7205759403792792 / 2 ^ 55"
    unfolding fsub_def float64_0_2 by (rule hi2)
  have h3: "fadd 1 (7205759403792792 / 2 ^ 55) = 5404319552844595 / 2 ^ 52"
    unfolding fadd_def by (rule hi3)
  have h4: "fmul (2 ^ 0) (5404319552844595 / 2 ^ 52) = 5404319552844595 / 2 ^ 52"
    unfolding fmul_def power_0 by (rule hi4(1))
  have h5: "fmul (5404319552844595 / 2 ^ 52) 1000000000 = 1200000000"
    unfolding fmul_def by (rule hi5(1))
  have "backoffWithJitter 0 (1 - 1 / 2 ^ 53) =
      time_Duration (fmul (fmul (2 ^ 0) (fadd 1 (fsub (fmul (1 - 1 / 2 ^ 53) (round64 0.4))
        (round64 0.2)))) 1000000000)"
    by (rule backoffWithJitter_small) simp
  also have "\<dots> = time_Duration 1200000000"
    unfolding h1 h2 h3 h4 h5 ..
  also have "\<dots> = 1200000000" by (simp add: time_Duration_def)
  finally show "backoffWithJitter 0 (1 - 1 / 2 ^ 53) = 1200000000" .
qed

subsection \<open>Paths\<close>










lemma clean_elements_drop_empty:
  "clean_elements r out ([] # xs) = clean_elements r out xs"
  by simp











subsection \<open>The retrying client\<close>

lemma processWithGemini_fst: "fst (processWithGemini e content w) = call_result e content (clock w)"
  by (simp add: processWithGemini_def call_result_def)

lemma processWithGemini_snd:
  "snd (processWithGemini e content w) = w\<lparr>clock := clock w + 1, log := log w @ [GeminiCalled content]\<rparr>"
  by (simp add: processWithGemini_def)

lemma call_result_error_empty:
  "snd (call_result e content c) \<noteq> None \<Longrightarrow> fst (call_result e content c) = []"
  by (auto simp: call_result_def processWithGemini_def split: exchange.splits option.splits if_splits)

lemma loop_success:
  assumes "a + n < MaxRetries"
    and "\<forall>j<n. snd (call_result e content (clock w + j)) \<noteq> None"
    and "call_result e content (clock w + n) = (r, None)"
  shows "processWithGeminiRetry_loop e content a lastErr w =
     ((r, None), w\<lparr>clock := clock w + n + 1,
                   log := log w @ retry_trace e content (clock w) a n @ [GeminiCalled content]\<rparr>)"
  using assms
proof (induction n arbitrary: a w lastErr)
  case 0
  have f: "fst (processWithGemini e content w) = (r, None)"
    using 0 by (simp add: processWithGemini_fst)
  obtain w1 where p: "processWithGemini e content w = ((r, None), w1)"
    using f by (cases "processWithGemini e content w") auto
  have w1: "w1 = w\<lparr>clock := clock w + 1, log := log w @ [GeminiCalled content]\<rparr>"
    using processWithGemini_snd [of e content w] p by simp
  show ?case
    using 0 p w1
    by (subst processWithGeminiRetry_loop.simps) simp
next
  case (Suc n)
  have "snd (call_result e content (clock w)) \<noteq> None"
    using Suc.prems(2) by (metis add.right_neutral zero_less_Suc)
  then obtain res err where f: "fst (processWithGemini e content w) = (res, Some err)"
    by (cases "call_result e content (clock w)") (auto simp: processWithGemini_fst)
  obtain w1 where p: "processWithGemini e content w = ((res, Some err), w1)"
    using f by (cases "processWithGemini e content w") auto
  have w1: "w1 = w\<lparr>clock := clock w + 1, log := log w @ [GeminiCalled content]\<rparr>"
    using processWithGemini_snd [of e content w] p by simp
  define d where "d = backoffWithJitter a (rand_Float64 e (clock w1))"
  define w2 where "w2 = time_Sleep d w1"
  have c2: "clock w2 = clock w + 1"
    by (simp add: w2_def w1 time_Sleep_def)
  have fails: "\<forall>j<n. snd (call_result e content (clock w2 + j)) \<noteq> None"
    using Suc.prems(2) c2 by auto
  have succ: "call_result e content (clock w2 + n) = (r, None)"
    using Suc.prems(3) c2 by simp
  have b: "Suc a + n < MaxRetries" using Suc.prems(1) by simp
  have ih: "processWithGeminiRetry_loop e content (Suc a) (Some err) w2 =
     ((r, None), w2\<lparr>clock := clock w2 + n + 1,
                   log := log w2 @ retry_trace e content (clock w2) (Suc a) n @ [GeminiCalled content]\<rparr>)"
    using Suc.IH [OF b fails succ] .
  have eqw: "w2\<lparr>clock := clock w2 + n + 1,
                   log := log w2 @ retry_trace e content (clock w2) (Suc a) n @ [GeminiCalled content]\<rparr>
      = w\<lparr>clock := clock w + Suc n + 1,
                   log := log w @ retry_trace e content (clock w) a (Suc n) @ [GeminiCalled content]\<rparr>"
    by (simp add: w2_def w1 d_def time_Sleep_def)
  have "a < MaxRetries" using Suc.prems(1) by simp
  then have "processWithGeminiRetry_loop e content a lastErr w =
      processWithGeminiRetry_loop e content (Suc a) (Some err) w2"
    using p by (subst processWithGeminiRetry_loop.simps) (simp add: w2_def d_def)
  then show ?case using ih eqw by simp
qed

lemma loop_exhausted:
  assumes "a + n = MaxRetries"
    and "\<forall>j<n. snd (call_result e content (clock w + j)) \<noteq> None"
  shows "processWithGeminiRetry_loop e content a lastErr w =
     (([], Some (ErrMaxRetries
                  (if n = 0 then lastErr else snd (call_result e content (clock w + (n - 1)))))),
      w\<lparr>clock := clock w + n, log := log w @ retry_trace e content (clock w) a n\<rparr>)"
  using assms
proof (induction n arbitrary: a w lastErr)
  case 0
  then show ?case
    by (subst processWithGeminiRetry_loop.simps) simp
next
  case (Suc n)
  have nz: "snd (call_result e content (clock w)) \<noteq> None"
    using Suc.prems(2) by (metis add.right_neutral zero_less_Suc)
  then obtain res err where f: "fst (processWithGemini e content w) = (res, Some err)"
    by (cases "call_result e content (clock w)") (auto simp: processWithGemini_fst)
  obtain w1 where p: "processWithGemini e content w = ((res, Some err), w1)"
    using f by (cases "processWithGemini e content w") auto
  have w1: "w1 = w\<lparr>clock := clock w + 1, log := log w @ [GeminiCalled content]\<rparr>"
    using processWithGemini_snd [of e content w] p by simp
  have cr: "snd (call_result e content (clock w)) = Some err"
    using f by (simp add: processWithGemini_fst)
  define d where "d = backoffWithJitter a (rand_Float64 e (clock w1))"
  define w2 where "w2 = time_Sleep d w1"
  have c2: "clock w2 = clock w + 1"
    by (simp add: w2_def w1 time_Sleep_def)
  have fails: "\<forall>j<n. snd (call_result e content (clock w2 + j)) \<noteq> None"
    using Suc.prems(2) c2 by auto
  have b: "Suc a + n = MaxRetries" using Suc.prems(1) by simp
  have ih: "processWithGeminiRetry_loop e content (Suc a) (Some err) w2 =
     (([], Some (ErrMaxRetries
                  (if n = 0 then Some err else snd (call_result e content (clock w2 + (n - 1)))))),
      w2\<lparr>clock := clock w2 + n, log := log w2 @ retry_trace e content (clock w2) (Suc a) n\<rparr>)"
    using Suc.IH [OF b fails] .
  have eqw: "w2\<lparr>clock := clock w2 + n, log := log w2 @ retry_trace e content (clock w2) (Suc a) n\<rparr>
      = w\<lparr>clock := clock w + Suc n, log := log w @ retry_trace e content (clock w) a (Suc n)\<rparr>"
    by (simp add: w2_def w1 d_def time_Sleep_def)
  have le: "(if n = 0 then Some err else snd (call_result e content (clock w2 + (n - 1))))
      = snd (call_result e content (clock w + (Suc n - 1)))"
    using cr c2 by (cases n) simp_all
  have "a < MaxRetries" using Suc.prems(1) by simp
  then have "processWithGeminiRetry_loop e content a lastErr w =
      processWithGeminiRetry_loop e content (Suc a) (Some err) w2"
    using p by (subst processWithGeminiRetry_loop.simps) (simp add: w2_def d_def)
  then show ?case using ih eqw le by simp
qed

lemma calls_in_append: "calls_in (xs @ ys) = calls_in xs + calls_in ys"
  by (induction xs rule: calls_in.induct) simp_all

lemma sleeps_in_append: "sleeps_in (xs @ ys) = sleeps_in xs @ sleeps_in ys"
  by (induction xs rule: sleeps_in.induct) simp_all

lemma calls_in_retry_trace: "calls_in (retry_trace e content c a n) = n"
  by (induction n arbitrary: c a) simp_all

lemma length_sleeps_in_retry_trace: "length (sleeps_in (retry_trace e content c a n)) = n"
  by (induction n arbitrary: c a) simp_all

lemma retry_shape:
  "\<exists>n \<le> MaxRetries.
     (\<forall>j<n. snd (call_result e content (clock w + j)) \<noteq> None) \<and>
     ((n < MaxRetries \<and> snd (call_result e content (clock w + n)) = None \<and>
       processWithGeminiRetry e content w =
         (call_result e content (clock w + n),
          w\<lparr>clock := clock w + n + 1,
            log := log w @ retry_trace e content (clock w) 0 n @ [GeminiCalled content]\<rparr>)) \<or>
      (n = MaxRetries \<and>
       processWithGeminiRetry e content w =
         (([], Some (ErrMaxRetries (snd (call_result e content (clock w + (MaxRetries - 1)))))),
          w\<lparr>clock := clock w + n, log := log w @ retry_trace e content (clock w) 0 n\<rparr>)))"
proof (cases "\<exists>k<MaxRetries. snd (call_result e content (clock w + k)) = None")
  case True
  define n where "n = (LEAST k. k < MaxRetries \<and> snd (call_result e content (clock w + k)) = None)"
  from True have P: "n < MaxRetries \<and> snd (call_result e content (clock w + n)) = None"
    unfolding n_def by (rule exE) (rule LeastI)
  have least: "\<forall>j<n. snd (call_result e content (clock w + j)) \<noteq> None"
  proof (intro allI impI)
    fix j assume j: "j < n"
    then have "\<not> (j < MaxRetries \<and> snd (call_result e content (clock w + j)) = None)"
      unfolding n_def by (rule not_less_Least)
    with j P show "snd (call_result e content (clock w + j)) \<noteq> None" by simp
  qed
  obtain r where r: "call_result e content (clock w + n) = (r, None)"
    using P by (cases "call_result e content (clock w + n)") auto
  have "processWithGeminiRetry e content w =
         (call_result e content (clock w + n),
          w\<lparr>clock := clock w + n + 1,
            log := log w @ retry_trace e content (clock w) 0 n @ [GeminiCalled content]\<rparr>)"
    unfolding processWithGeminiRetry_def r
    using P least r by (intro loop_success) simp_all
  with P least show ?thesis by (intro exI [of _ n]) simp
next
  case False
  then have fails: "\<forall>j<MaxRetries. snd (call_result e content (clock w + j)) \<noteq> None" by simp
  have "processWithGeminiRetry e content w =
         (([], Some (ErrMaxRetries (snd (call_result e content (clock w + (MaxRetries - 1)))))),
          w\<lparr>clock := clock w + MaxRetries, log := log w @ retry_trace e content (clock w) 0 MaxRetries\<rparr>)"
    unfolding processWithGeminiRetry_def
    using loop_exhausted [of 0 MaxRetries e content w None] fails by (simp add: MaxRetries_def)
  with fails show ?thesis by (intro exI [of _ MaxRetries]) simp
qed

lemma new_events_update [simp]:
  "new_events w (w\<lparr>clock := c, log := log w @ tr\<rparr>) = tr"
  by (simp add: new_events_def)

text \<open>
  Claim C4. For every input, the retrying client calls \<^verbatim>\<open>processWithGemini\<close> at most
  \<open>MaxRetries = 5\<close> times. If attempt \<open>k\<close> is the first that succeeds, the client returns
  that attempt's result, after \<open>k + 1\<close> calls and \<open>k\<close> sleeps: nothing follows the
  successful call. If all five attempts fail, it returns the empty string together with the
  error \<^verbatim>\<open>max retries exceeded\<close> built from the error of the last attempt. Whenever it
  returns an error, the text it returns is empty.
\<close>

theorem retry_client_contract:
  "calls_in (new_events w (snd (processWithGeminiRetry e content w))) \<le> MaxRetries \<and>
   MaxRetries = 5 \<and>
   (\<forall>k<MaxRetries.
      (\<forall>j<k. snd (call_result e content (clock w + j)) \<noteq> None) \<and>
      snd (call_result e content (clock w + k)) = None \<longrightarrow>
        fst (processWithGeminiRetry e content w) = call_result e content (clock w + k) \<and>
        calls_in (new_events w (snd (processWithGeminiRetry e content w))) = k + 1 \<and>
        length (sleeps_in (new_events w (snd (processWithGeminiRetry e content w)))) = k) \<and>
   ((\<forall>k<MaxRetries. snd (call_result e content (clock w + k)) \<noteq> None) \<longrightarrow>
      fst (processWithGeminiRetry e content w) =
        ([], Some (ErrMaxRetries (snd (call_result e content (clock w + (MaxRetries - 1)))))) \<and>
      calls_in (new_events w (snd (processWithGeminiRetry e content w))) = MaxRetries) \<and>
   (snd (fst (processWithGeminiRetry e content w)) \<noteq> None \<longrightarrow>
      fst (fst (processWithGeminiRetry e content w)) = [])"
proof -
  obtain n where n: "n \<le> MaxRetries"
    and fails: "\<forall>j<n. snd (call_result e content (clock w + j)) \<noteq> None"
    and shape: "(n < MaxRetries \<and> snd (call_result e content (clock w + n)) = None \<and>
       processWithGeminiRetry e content w =
         (call_result e content (clock w + n),
          w\<lparr>clock := clock w + n + 1,
            log := log w @ retry_trace e content (clock w) 0 n @ [GeminiCalled content]\<rparr>)) \<or>
      (n = MaxRetries \<and>
       processWithGeminiRetry e content w =
         (([], Some (ErrMaxRetries (snd (call_result e content (clock w + (MaxRetries - 1)))))),
          w\<lparr>clock := clock w + n, log := log w @ retry_trace e content (clock w) 0 n\<rparr>))"
    using retry_shape [of e content w] by blast
  from shape show ?thesis
  proof
    assume s: "n < MaxRetries \<and> snd (call_result e content (clock w + n)) = None \<and>
       processWithGeminiRetry e content w =
         (call_result e content (clock w + n),
          w\<lparr>clock := clock w + n + 1,
            log := log w @ retry_trace e content (clock w) 0 n @ [GeminiCalled content]\<rparr>)"
    then have run: "processWithGeminiRetry e content w =
         (call_result e content (clock w + n),
          w\<lparr>clock := clock w + n + 1,
            log := log w @ retry_trace e content (clock w) 0 n @ [GeminiCalled content]\<rparr>)"
      by simp
    have calls: "calls_in (new_events w (snd (processWithGeminiRetry e content w))) = n + 1"
      unfolding run by (simp add: calls_in_append calls_in_retry_trace)
    have sleeps: "length (sleeps_in (new_events w (snd (processWithGeminiRetry e content w)))) = n"
      unfolding run by (simp add: sleeps_in_append length_sleeps_in_retry_trace)
    have first: "k = n" if "k < MaxRetries"
      "\<forall>j<k. snd (call_result e content (clock w + j)) \<noteq> None"
      "snd (call_result e content (clock w + k)) = None" for k
      using that fails s by (meson linorder_neqE_nat)
    have a: "calls_in (new_events w (snd (processWithGeminiRetry e content w))) \<le> MaxRetries"
      using calls s by simp
    have b: "\<forall>k<MaxRetries.
      (\<forall>j<k. snd (call_result e content (clock w + j)) \<noteq> None) \<and>
      snd (call_result e content (clock w + k)) = None \<longrightarrow>
        fst (processWithGeminiRetry e content w) = call_result e content (clock w + k) \<and>
        calls_in (new_events w (snd (processWithGeminiRetry e content w))) = k + 1 \<and>
        length (sleeps_in (new_events w (snd (processWithGeminiRetry e content w)))) = k"
      using first calls sleeps run by auto
    have c: "(\<forall>k<MaxRetries. snd (call_result e content (clock w + k)) \<noteq> None) \<longrightarrow>
      fst (processWithGeminiRetry e content w) =
        ([], Some (ErrMaxRetries (snd (call_result e content (clock w + (MaxRetries - 1)))))) \<and>
      calls_in (new_events w (snd (processWithGeminiRetry e content w))) = MaxRetries"
      using s by blast
    have d: "snd (fst (processWithGeminiRetry e content w)) \<noteq> None \<longrightarrow>
      fst (fst (processWithGeminiRetry e content w)) = []"
      using s by simp
    have m: "MaxRetries = 5" by (simp add: MaxRetries_def)
    show ?thesis by (intro conjI a m b c d)
  next
    assume s: "n = MaxRetries \<and>
       processWithGeminiRetry e content w =
         (([], Some (ErrMaxRetries (snd (call_result e content (clock w + (MaxRetries - 1)))))),
          w\<lparr>clock := clock w + n, log := log w @ retry_trace e content (clock w) 0 n\<rparr>)"
    then have run: "processWithGeminiRetry e content w =
         (([], Some (ErrMaxRetries (snd (call_result e content (clock w + (MaxRetries - 1)))))),
          w\<lparr>clock := clock w + n, log := log w @ retry_trace e content (clock w) 0 n\<rparr>)"
      by simp
    have calls: "calls_in (new_events w (snd (processWithGeminiRetry e content w))) = MaxRetries"
      unfolding run using s by (simp add: calls_in_retry_trace)
    have a: "calls_in (new_events w (snd (processWithGeminiRetry e content w))) \<le> MaxRetries"
      using calls by simp
    have b: "\<forall>k<MaxRetries.
      (\<forall>j<k. snd (call_result e content (clock w + j)) \<noteq> None) \<and>
      snd (call_result e content (clock w + k)) = None \<longrightarrow>
        fst (processWithGeminiRetry e content w) = call_result e content (clock w + k) \<and>
        calls_in (new_events w (snd (processWithGeminiRetry e content w))) = k + 1 \<and>
        length (sleeps_in (new_events w (snd (processWithGeminiRetry e content w)))) = k"
      using fails s by auto
    have c: "(\<forall>k<MaxRetries. snd (call_result e content (clock w + k)) \<noteq> None) \<longrightarrow>
      fst (processWithGeminiRetry e content w) =
        ([], Some (ErrMaxRetries (snd (call_result e content (clock w + (MaxRetries - 1)))))) \<and>
      calls_in (new_events w (snd (processWithGeminiRetry e content w))) = MaxRetries"
      using calls run by simp
    have d: "snd (fst (processWithGeminiRetry e content w)) \<noteq> None \<longrightarrow>
      fst (fst (processWithGeminiRetry e content w)) = []"
      using run by simp
    have m: "MaxRetries = 5" by (simp add: MaxRetries_def)
    show ?thesis by (intro conjI a m b c d)
  qed
qed


lemma sleeps_in_retry_trace_nth:
  "j < n \<Longrightarrow> sleeps_in (retry_trace e content c a n) ! j =
     backoffWithJitter (a + j) (rand_Float64 e (c + j + 1))"
proof (induction n arbitrary: c a j)
  case 0
  then show ?case by simp
next
  case (Suc n)
  show ?case
  proof (cases j)
    case 0
    then show ?thesis by simp
  next
    case (Suc i)
    with Suc.prems have "i < n" by simp
    from Suc.IH [OF this, of "c + 1" "a + 1"] Suc show ?thesis by simp
  qed
qed

lemma example_calls:
  "call_result example_env c k = (if k < 2 then ([], Some ErrSendingRequest) else (''fixed'', None))"
  by (simp add: call_result_def processWithGemini_def example_env_def ok_response_def)

lemma failing_calls:
  "call_result (example_env\<lparr>http := \<lambda>c r. DoFails\<rparr>) c k = ([], Some ErrSendingRequest)"
  by (simp add: call_result_def processWithGemini_def)

theorem retry_client_contract_witness:
  "fst (processWithGeminiRetry example_env ''teh file'' example_world) = (''fixed'', None) \<and>
   calls_in (new_events example_world
      (snd (processWithGeminiRetry example_env ''teh file'' example_world))) = 3 \<and>
   fst (processWithGeminiRetry (example_env\<lparr>http := \<lambda>c r. DoFails\<rparr>) ''teh file'' example_world) =
     ([], Some (ErrMaxRetries (Some ErrSendingRequest))) \<and>
   calls_in (new_events example_world
      (snd (processWithGeminiRetry (example_env\<lparr>http := \<lambda>c r. DoFails\<rparr>) ''teh file'' example_world))) = 5"
proof -
  have a: "2 < MaxRetries" by (simp add: MaxRetries_def)
  have b: "(\<forall>j<2. snd (call_result example_env ''teh file'' (clock example_world + j)) \<noteq> None) \<and>
      snd (call_result example_env ''teh file'' (clock example_world + 2)) = None"
    by (simp add: example_calls example_world_def)
  have c: "\<forall>k<MaxRetries. snd (call_result (example_env\<lparr>http := \<lambda>c r. DoFails\<rparr>) ''teh file''
      (clock example_world + k)) \<noteq> None"
    by (simp add: failing_calls)
  have d: "fst (processWithGeminiRetry example_env ''teh file'' example_world) = (''fixed'', None) \<and>
   calls_in (new_events example_world
      (snd (processWithGeminiRetry example_env ''teh file'' example_world))) = 3"
    using retry_client_contract [of example_world example_env "''teh file''",
        THEN conjunct2, THEN conjunct2, THEN conjunct1, rule_format, OF a b]
    by (simp add: example_calls example_world_def)
  have f: "fst (processWithGeminiRetry (example_env\<lparr>http := \<lambda>c r. DoFails\<rparr>) ''teh file'' example_world) =
     ([], Some (ErrMaxRetries (Some ErrSendingRequest))) \<and>
   calls_in (new_events example_world
      (snd (processWithGeminiRetry (example_env\<lparr>http := \<lambda>c r. DoFails\<rparr>) ''teh file'' example_world))) = 5"
    using retry_client_contract [of example_world "example_env\<lparr>http := \<lambda>c r. DoFails\<rparr>" "''teh file''",
        THEN conjunct2, THEN conjunct2, THEN conjunct2, THEN conjunct1, THEN mp, OF c]
    by (simp add: failing_calls MaxRetries_def)
  from d f show ?thesis by simp
qed

text \<open>
  Claim C9. When every attempt fails, the client sleeps after each of the five failed
  calls, the last one included: the run is five times a call followed by a sleep, and the
  terminal error comes after the fifth sleep.
\<close>

theorem retry_sleeps_after_every_failure:
  assumes "\<forall>k<MaxRetries. snd (call_result e content (clock w + k)) \<noteq> None"
  shows "new_events w (snd (processWithGeminiRetry e content w)) =
           [GeminiCalled content, Slept (backoffWithJitter 0 (rand_Float64 e (clock w + 1))),
            GeminiCalled content, Slept (backoffWithJitter 1 (rand_Float64 e (clock w + 2))),
            GeminiCalled content, Slept (backoffWithJitter 2 (rand_Float64 e (clock w + 3))),
            GeminiCalled content, Slept (backoffWithJitter 3 (rand_Float64 e (clock w + 4))),
            GeminiCalled content, Slept (backoffWithJitter 4 (rand_Float64 e (clock w + 5)))] \<and>
         length (sleeps_in (new_events w (snd (processWithGeminiRetry e content w)))) = 5 \<and>
         (\<exists>err. fst (processWithGeminiRetry e content w) = ([], Some (ErrMaxRetries err)))"
proof -
  have run: "processWithGeminiRetry e content w =
     (([], Some (ErrMaxRetries (snd (call_result e content (clock w + (5 - 1)))))),
      w\<lparr>clock := clock w + 5, log := log w @ retry_trace e content (clock w) 0 5\<rparr>)"
    unfolding processWithGeminiRetry_def
    using loop_exhausted [of 0 5 e content w None] assms by (simp add: MaxRetries_def)
  have tr: "retry_trace e content (clock w) 0 5 =
           [GeminiCalled content, Slept (backoffWithJitter 0 (rand_Float64 e (clock w + 1))),
            GeminiCalled content, Slept (backoffWithJitter 1 (rand_Float64 e (clock w + 2))),
            GeminiCalled content, Slept (backoffWithJitter 2 (rand_Float64 e (clock w + 3))),
            GeminiCalled content, Slept (backoffWithJitter 3 (rand_Float64 e (clock w + 4))),
            GeminiCalled content, Slept (backoffWithJitter 4 (rand_Float64 e (clock w + 5)))]"
    by (simp add: eval_nat_numeral)
  show ?thesis unfolding run by (simp add: tr)
qed

theorem retry_sleeps_after_every_failure_witness:
  "length (sleeps_in (new_events example_world
      (snd (processWithGeminiRetry (example_env\<lparr>http := \<lambda>c r. DoFails\<rparr>) ''teh file'' example_world)))) = 5 \<and>
   last (new_events example_world
      (snd (processWithGeminiRetry (example_env\<lparr>http := \<lambda>c r. DoFails\<rparr>) ''teh file'' example_world))) =
     Slept 16000000000"
proof -
  have c: "\<forall>k<MaxRetries. snd (call_result (example_env\<lparr>http := \<lambda>c r. DoFails\<rparr>) ''teh file''
      (clock example_world + k)) \<noteq> None"
    by (simp add: failing_calls)
  have d: "backoffWithJitter 4 (1 / 2) = 16000000000"
    by (rule backoff_half(5))
  show ?thesis
    using retry_sleeps_after_every_failure [OF c] d by (simp add: example_env_def)
qed


lemma hd_retry_trace:
  "hd (retry_trace e content c a n @ [GeminiCalled content]) = GeminiCalled content"
  by (cases n) simp_all

lemma sleeps_in_retry_trace_bounds:
  assumes "\<forall>c. is_float64 (rand_Float64 e c) \<and> 0 \<le> rand_Float64 e c \<and> rand_Float64 e c < 1"
    and "j < n"
  shows "0.8 * (min (InitialBackoff * 2 ^ j) MaxBackoff * 1000000000)
           \<le> real_of_int (sleeps_in (retry_trace e content c 0 n) ! j) \<and>
         real_of_int (sleeps_in (retry_trace e content c 0 n) ! j)
           \<le> 1.2 * (min (InitialBackoff * 2 ^ j) MaxBackoff * 1000000000)"
proof -
  have "sleeps_in (retry_trace e content c 0 n) ! j =
      backoffWithJitter j (rand_Float64 e (c + j + 1))"
    using sleeps_in_retry_trace_nth [OF assms(2), of e content c 0] by simp
  then show ?thesis
    using backoff_bounds [of "rand_Float64 e (c + j + 1)" j] assms(1) by simp
qed

text \<open>
  Claim C5. With every random number a \<^verbatim>\<open>float64\<close> in \<open>[0, 1)\<close>, as \<^verbatim>\<open>rand.Float64\<close>
  returns them: a run of the client starts with a call (no delay before the first attempt);
  every attempt that is made and fails is followed by a sleep; and the \<open>n\<close>-th sleep, taken
  after the failure of attempt \<open>n\<close> and before attempt \<open>n + 1\<close>, lasts between 0.8 and 1.2
  times \<open>min (InitialBackoff * 2 ^ n) MaxBackoff\<close>, counted in nanoseconds, both ends
  included. The delay is the one the program computes in \<^verbatim>\<open>float64\<close>, with the rounding of
  each of its operations; both ends are reached (\<open>backoff_extremes\<close>).
\<close>

theorem backoff_delay_within_jitter:
  assumes "\<forall>c. is_float64 (rand_Float64 e c) \<and> 0 \<le> rand_Float64 e c \<and> rand_Float64 e c < 1"
  shows "hd (new_events w (snd (processWithGeminiRetry e content w))) = GeminiCalled content \<and>
     (\<forall>n < calls_in (new_events w (snd (processWithGeminiRetry e content w))).
        snd (call_result e content (clock w + n)) \<noteq> None \<longrightarrow>
        n < length (sleeps_in (new_events w (snd (processWithGeminiRetry e content w))))) \<and>
     (\<forall>n < length (sleeps_in (new_events w (snd (processWithGeminiRetry e content w)))).
        snd (call_result e content (clock w + n)) \<noteq> None \<and>
        0.8 * (min (InitialBackoff * 2 ^ n) MaxBackoff * 1000000000)
          \<le> real_of_int (sleeps_in (new_events w (snd (processWithGeminiRetry e content w))) ! n) \<and>
        real_of_int (sleeps_in (new_events w (snd (processWithGeminiRetry e content w))) ! n)
          \<le> 1.2 * (min (InitialBackoff * 2 ^ n) MaxBackoff * 1000000000))"
proof -
  obtain n where n: "n \<le> MaxRetries"
    and fails: "\<forall>j<n. snd (call_result e content (clock w + j)) \<noteq> None"
    and shape: "(n < MaxRetries \<and> snd (call_result e content (clock w + n)) = None \<and>
       processWithGeminiRetry e content w =
         (call_result e content (clock w + n),
          w\<lparr>clock := clock w + n + 1,
            log := log w @ retry_trace e content (clock w) 0 n @ [GeminiCalled content]\<rparr>)) \<or>
      (n = MaxRetries \<and>
       processWithGeminiRetry e content w =
         (([], Some (ErrMaxRetries (snd (call_result e content (clock w + (MaxRetries - 1)))))),
          w\<lparr>clock := clock w + n, log := log w @ retry_trace e content (clock w) 0 n\<rparr>))"
    using retry_shape [of e content w] by blast
  define tr where "tr = new_events w (snd (processWithGeminiRetry e content w))"
  have key: "hd tr = GeminiCalled content \<and> sleeps_in tr = sleeps_in (retry_trace e content (clock w) 0 n) \<and>
      (\<forall>m < calls_in tr. snd (call_result e content (clock w + m)) \<noteq> None \<longrightarrow> m < n)"
    using shape
  proof
    assume s: "n < MaxRetries \<and> snd (call_result e content (clock w + n)) = None \<and>
       processWithGeminiRetry e content w =
         (call_result e content (clock w + n),
          w\<lparr>clock := clock w + n + 1,
            log := log w @ retry_trace e content (clock w) 0 n @ [GeminiCalled content]\<rparr>)"
    then have t: "tr = retry_trace e content (clock w) 0 n @ [GeminiCalled content]"
      unfolding tr_def by simp
    have "m < n" if "m < calls_in tr" "snd (call_result e content (clock w + m)) \<noteq> None" for m
    proof -
      from that(1) have "m < n + 1" unfolding t by (simp add: calls_in_append calls_in_retry_trace)
      moreover have "m \<noteq> n" using that(2) s by auto
      ultimately show ?thesis by simp
    qed
    then show ?thesis unfolding t by (simp add: hd_retry_trace sleeps_in_append)
  next
    assume s: "n = MaxRetries \<and>
       processWithGeminiRetry e content w =
         (([], Some (ErrMaxRetries (snd (call_result e content (clock w + (MaxRetries - 1)))))),
          w\<lparr>clock := clock w + n, log := log w @ retry_trace e content (clock w) 0 n\<rparr>)"
    then have t: "tr = retry_trace e content (clock w) 0 n"
      unfolding tr_def by simp
    obtain m where "n = Suc m"
      using s by (cases n) (simp_all add: MaxRetries_def)
    then have "hd (retry_trace e content (clock w) 0 n) = GeminiCalled content"
      by simp
    then show ?thesis unfolding t by (simp add: calls_in_retry_trace)
  qed
  have len: "length (sleeps_in tr) = n"
    using key by (simp add: length_sleeps_in_retry_trace)
  have b: "\<forall>j < length (sleeps_in tr).
        snd (call_result e content (clock w + j)) \<noteq> None \<and>
        0.8 * (min (InitialBackoff * 2 ^ j) MaxBackoff * 1000000000)
          \<le> real_of_int (sleeps_in tr ! j) \<and>
        real_of_int (sleeps_in tr ! j)
          \<le> 1.2 * (min (InitialBackoff * 2 ^ j) MaxBackoff * 1000000000)"
  proof (intro allI impI)
    fix j assume "j < length (sleeps_in tr)"
    then have j: "j < n" using len by simp
    have "sleeps_in tr ! j = sleeps_in (retry_trace e content (clock w) 0 n) ! j"
      using key by simp
    with sleeps_in_retry_trace_bounds [OF assms j, of content "clock w"] fails j
    show "snd (call_result e content (clock w + j)) \<noteq> None \<and>
        0.8 * (min (InitialBackoff * 2 ^ j) MaxBackoff * 1000000000)
          \<le> real_of_int (sleeps_in tr ! j) \<and>
        real_of_int (sleeps_in tr ! j)
          \<le> 1.2 * (min (InitialBackoff * 2 ^ j) MaxBackoff * 1000000000)"
      by simp
  qed
  have a: "\<forall>m < calls_in tr. snd (call_result e content (clock w + m)) \<noteq> None \<longrightarrow>
      m < length (sleeps_in tr)"
    using key len by simp
  from key a b show ?thesis unfolding tr_def by blast
qed

theorem backoff_delay_within_jitter_witness:
  "(\<forall>c. is_float64 (rand_Float64 example_env c) \<and>
        0 \<le> rand_Float64 example_env c \<and> rand_Float64 example_env c < 1) \<and>
   sleeps_in (new_events example_world
      (snd (processWithGeminiRetry example_env ''teh file'' example_world))) =
     [1000000000, 2000000000] \<and>
   0.8 * (min (InitialBackoff * 2 ^ 1) MaxBackoff * 1000000000) \<le> real_of_int 2000000000 \<and>
   real_of_int 2000000000 \<le> 1.2 * (min (InitialBackoff * 2 ^ 1) MaxBackoff * 1000000000)"
proof -
  have r: "\<forall>c. is_float64 (rand_Float64 example_env c) \<and>
      0 \<le> rand_Float64 example_env c \<and> rand_Float64 example_env c < 1"
    using half_float64 by (simp add: example_env_def)
  have b: "(\<forall>j<2. snd (call_result example_env ''teh file'' (clock example_world + j)) \<noteq> None) \<and>
      snd (call_result example_env ''teh file'' (clock example_world + 2)) = None"
    by (simp add: example_calls example_world_def)
  have run: "processWithGeminiRetry example_env ''teh file'' example_world =
     ((''fixed'', None), example_world\<lparr>clock := clock example_world + 2 + 1,
        log := log example_world @ retry_trace example_env ''teh file'' (clock example_world) 0 2 @
          [GeminiCalled ''teh file'']\<rparr>)"
    unfolding processWithGeminiRetry_def
    using b by (intro loop_success) (simp_all add: MaxRetries_def example_calls example_world_def)
  have d: "backoffWithJitter 0 (1 / 2) = 1000000000"
    "backoffWithJitter (Suc 0) (1 / 2) = 2000000000"
    by (rule backoff_half(1), rule backoff_half(2))
  have s: "sleeps_in (new_events example_world
      (snd (processWithGeminiRetry example_env ''teh file'' example_world))) =
     [1000000000, 2000000000]"
    unfolding run by (simp add: eval_nat_numeral d example_env_def)
  show ?thesis
    using backoff_delay_within_jitter [OF r, of example_world "''teh file''"] r s
    by (simp add: InitialBackoff_def MaxBackoff_def)
qed

subsection \<open>One file\<close>

lemma writes_in_append: "writes_in (xs @ ys) = writes_in xs @ writes_in ys"
  by (induction xs rule: writes_in.induct) simp_all

lemma writes_in_retry_trace: "writes_in (retry_trace e content c a n) = []"
  by (induction n arbitrary: c a) simp_all

lemma retry_world:
  "\<exists>c tr. snd (processWithGeminiRetry e content w) = w\<lparr>clock := c, log := log w @ tr\<rparr> \<and>
     writes_in tr = []"
proof -
  from retry_shape [of e content w] obtain n where
    "(processWithGeminiRetry e content w =
         (call_result e content (clock w + n),
          w\<lparr>clock := clock w + n + 1,
            log := log w @ retry_trace e content (clock w) 0 n @ [GeminiCalled content]\<rparr>)) \<or>
      (processWithGeminiRetry e content w =
         (([], Some (ErrMaxRetries (snd (call_result e content (clock w + (MaxRetries - 1)))))),
          w\<lparr>clock := clock w + n, log := log w @ retry_trace e content (clock w) 0 n\<rparr>))"
    by blast
  then show ?thesis
  proof
    assume "processWithGeminiRetry e content w =
         (call_result e content (clock w + n),
          w\<lparr>clock := clock w + n + 1,
            log := log w @ retry_trace e content (clock w) 0 n @ [GeminiCalled content]\<rparr>)"
    then show ?thesis
      by (intro exI [of _ "clock w + n + 1"]
          exI [of _ "retry_trace e content (clock w) 0 n @ [GeminiCalled content]"])
        (simp add: writes_in_append writes_in_retry_trace)
  next
    assume "processWithGeminiRetry e content w =
         (([], Some (ErrMaxRetries (snd (call_result e content (clock w + (MaxRetries - 1)))))),
          w\<lparr>clock := clock w + n, log := log w @ retry_trace e content (clock w) 0 n\<rparr>)"
    then show ?thesis
      by (intro exI [of _ "clock w + n"] exI [of _ "retry_trace e content (clock w) 0 n"])
        (simp add: writes_in_retry_trace)
  qed
qed

lemma os_WriteFile_effect:
  "log (snd (os_WriteFile e p d w)) = log w @ [WriteFileCalled p d] \<and>
   clock (snd (os_WriteFile e p d w)) = clock w + 1 \<and>
   (\<forall>q. q \<noteq> p \<longrightarrow> files (snd (os_WriteFile e p d w)) q = files w q) \<and>
   (fst (os_WriteFile e p d w) = None \<longrightarrow> files (snd (os_WriteFile e p d w)) p = Some d) \<and>
   (fst (os_WriteFile e p d w) \<noteq> None \<longrightarrow>
      fst (os_WriteFile e p d w) = Some (OsError p) \<and>
      (files (snd (os_WriteFile e p d w)) p = files w p \<or>
       (\<exists>k. files (snd (os_WriteFile e p d w)) p = Some (take k d))))"
  by (cases "write_result e (clock w) p") (auto simp: os_WriteFile_def Let_def)

lemma partial_retry:
  "processWithGeminiRetry env_partial_write ''teh file'' example_world =
     ((''fixed'', None),
      example_world\<lparr>clock := 1, log := [GeminiCalled ''teh file'']\<rparr>)"
proof -
  have c: "call_result env_partial_write ''teh file'' (clock example_world + 0) = (''fixed'', None)"
    by (simp add: call_result_def processWithGemini_def env_partial_write_def example_env_def
        ok_response_def)
  show ?thesis
    unfolding processWithGeminiRetry_def
    using loop_success [of 0 0 env_partial_write "''teh file''" example_world "''fixed''" None] c
    by (simp add: MaxRetries_def example_world_def)
qed

text \<open>
  Claim C2, as stated, asks that the file is either the transform's output or its original
  content, and untouched when the write-back fails. \<^verbatim>\<open>processFileContent\<close> writes with
  \<^verbatim>\<open>os.WriteFile\<close>, which truncates the file before it writes: when the write fails after two
  bytes, the task is reported as failed and the file holds \<^verbatim>\<open>fi\<close>, which is neither the
  original \<^verbatim>\<open>teh file\<close> nor the output \<^verbatim>\<open>fixed\<close>.
\<close>

theorem write_back_failure_leaves_partial_file:
  "\<not> fst (processFileContent env_partial_write example_task example_world) \<and>
   files example_world (Path example_task) = Some ''teh file'' \<and>
   fst (processWithGeminiRetry env_partial_write (Content example_task) example_world) =
     (''fixed'', None) \<and>
   files (snd (processFileContent env_partial_write example_task example_world))
     (Path example_task) = Some ''fi''"
proof -
  have t: "Path example_task = ''a.md''" "Content example_task = ''teh file''"
    by (simp_all add: example_task_def)
  have wr: "write_result env_partial_write c p = WriteFailsAfter 2" for c p
    by (simp add: env_partial_write_def)
  have p: "processFileContent env_partial_write example_task example_world =
      (False, example_world\<lparr>clock := 2,
         log := [GeminiCalled ''teh file'', WriteFileCalled ''a.md'' ''fixed''],
         files := (files example_world)(''a.md'' \<mapsto> ''fi'')\<rparr>)"
    unfolding processFileContent_def t partial_retry
    by (simp add: os_WriteFile_def wr)
  show ?thesis
    unfolding p unfolding t partial_retry by (simp add: example_world_def)
qed

text \<open>
  Claim C2, amended. For every task: no file other than the task's source path changes. If
  the transform fails terminally, the task is reported as failed, no write is issued and
  every file is as before. If the transform succeeds, exactly one write is issued, to the
  source path, with the verbatim output of the successful attempt, and it is the last event
  of the task (so nothing is written before the transform has succeeded); when it succeeds
  the file holds exactly that output; when it fails the task is reported as failed and the
  file is either as before (the file could not be opened) or holds a prefix of the output
  (the write failed after the file was truncated).
\<close>

theorem processFileContent_outcomes:
  "(\<forall>p. p \<noteq> Path fi \<longrightarrow> files (snd (processFileContent e fi w)) p = files w p) \<and>
   (snd (fst (processWithGeminiRetry e (Content fi) w)) \<noteq> None \<longrightarrow>
      \<not> fst (processFileContent e fi w) \<and>
      files (snd (processFileContent e fi w)) = files w \<and>
      writes_in (new_events w (snd (processFileContent e fi w))) = []) \<and>
   (snd (fst (processWithGeminiRetry e (Content fi) w)) = None \<longrightarrow>
      writes_in (new_events w (snd (processFileContent e fi w))) =
        [(Path fi, fst (fst (processWithGeminiRetry e (Content fi) w)))] \<and>
      last (new_events w (snd (processFileContent e fi w))) =
        WriteFileCalled (Path fi) (fst (fst (processWithGeminiRetry e (Content fi) w))) \<and>
      (fst (processFileContent e fi w) \<longrightarrow>
         files (snd (processFileContent e fi w)) (Path fi) =
           Some (fst (fst (processWithGeminiRetry e (Content fi) w)))) \<and>
      (\<not> fst (processFileContent e fi w) \<longrightarrow>
         files (snd (processFileContent e fi w)) (Path fi) = files w (Path fi) \<or>
         (\<exists>k. files (snd (processFileContent e fi w)) (Path fi) =
            Some (take k (fst (fst (processWithGeminiRetry e (Content fi) w)))))))"
proof -
  obtain r err w1 where run: "processWithGeminiRetry e (Content fi) w = ((r, err), w1)"
    by (cases "processWithGeminiRetry e (Content fi) w") auto
  obtain c tr where w1: "w1 = w\<lparr>clock := c, log := log w @ tr\<rparr>" and tr: "writes_in tr = []"
    using retry_world [of e "Content fi" w] run by auto
  show ?thesis
  proof (cases err)
    case (Some er)
    then have p: "processFileContent e fi w = (False, w1)"
      by (simp add: processFileContent_def run)
    show ?thesis unfolding p run using Some w1 tr by simp
  next
    case None
    define wr where "wr = os_WriteFile e (Path fi) r w1"
    have p: "processFileContent e fi w = (fst wr = None, snd wr)"
      unfolding wr_def using None
      by (cases "os_WriteFile e (Path fi) r w1")
        (auto simp: processFileContent_def run split: option.splits)
    note eff = os_WriteFile_effect [of e "Path fi" r w1, folded wr_def]
    have lg: "new_events w (snd wr) = tr @ [WriteFileCalled (Path fi) r]"
      using eff by (simp add: new_events_def w1)
    have f1: "files w1 = files w" by (simp add: w1)
    have a: "\<forall>p. p \<noteq> Path fi \<longrightarrow> files (snd wr) p = files w p"
      using eff f1 by simp
    have b: "writes_in (new_events w (snd wr)) = [(Path fi, r)]"
      unfolding lg by (simp add: writes_in_append tr)
    have c: "last (new_events w (snd wr)) = WriteFileCalled (Path fi) r"
      unfolding lg by simp
    have d: "fst wr = None \<longrightarrow> files (snd wr) (Path fi) = Some r"
      using eff by simp
    have g: "fst wr \<noteq> None \<longrightarrow> files (snd wr) (Path fi) = files w (Path fi) \<or>
        (\<exists>k. files (snd wr) (Path fi) = Some (take k r))"
      using eff f1 by simp
    show ?thesis unfolding p run using None a b c d g by simp
  qed
qed

theorem processFileContent_outcomes_witness:
  "snd (fst (processWithGeminiRetry env_partial_write (Content example_task) example_world)) = None \<and>
   \<not> fst (processFileContent env_partial_write example_task example_world) \<and>
   writes_in (new_events example_world
     (snd (processFileContent env_partial_write example_task example_world))) =
     [(''a.md'', ''fixed'')] \<and>
   files (snd (processFileContent env_partial_write example_task example_world)) ''b.md'' =
     files example_world ''b.md'' \<and>
   snd (fst (processWithGeminiRetry (example_env\<lparr>http := \<lambda>c r. DoFails\<rparr>)
     (Content example_task) example_world)) \<noteq> None \<and>
   files (snd (processFileContent (example_env\<lparr>http := \<lambda>c r. DoFails\<rparr>) example_task
     example_world)) = files example_world"
proof -
  have t: "Path example_task = ''a.md''" "Content example_task = ''teh file''"
    by (simp_all add: example_task_def)
  have a: "snd (fst (processWithGeminiRetry env_partial_write (Content example_task)
      example_world)) = None"
    unfolding t partial_retry by simp
  have wr: "write_result env_partial_write c p = WriteFailsAfter 2" for c p
    by (simp add: env_partial_write_def)
  have b: "\<not> fst (processFileContent env_partial_write example_task example_world)"
    unfolding processFileContent_def t partial_retry by (simp add: os_WriteFile_def wr)
  have c: "snd (fst (processWithGeminiRetry (example_env\<lparr>http := \<lambda>c r. DoFails\<rparr>)
     (Content example_task) example_world)) \<noteq> None"
    unfolding processWithGeminiRetry_def
    using loop_exhausted [of 0 5 "example_env\<lparr>http := \<lambda>c r. DoFails\<rparr>" "Content example_task"
        example_world None]
    by (simp add: MaxRetries_def failing_calls)
  have d: "''b.md'' \<noteq> Path example_task" by (simp add: t)
  show ?thesis
    using processFileContent_outcomes [of example_task env_partial_write example_world]
      processFileContent_outcomes [of example_task "example_env\<lparr>http := \<lambda>c r. DoFails\<rparr>"
        example_world] a b c d
    unfolding t partial_retry by simp
qed

subsection \<open>The names of the collected files\<close>







subsection \<open>The backup phase\<close>




















subsection \<open>Collecting files\<close>










text \<open>
  Claim C8 speaks of every directory. \<^verbatim>\<open>filepath.Walk\<close> reads the names of a subdirectory
  before it hands the subdirectory to the walk function, and the walk function returns the
  error it is handed before it comes to its test for \<^verbatim>\<open>SkipDir\<close> (lines 299-310). So a
  subdirectory that cannot be read ends the collection with an error, also without \<^verbatim>\<open>-r\<close>:
  the top-level file \<^verbatim>\<open>docs/a.md\<close> is not selected, nothing is, and the process exits with
  code 1.
\<close>

theorem unreadable_subdirectory_fails_collection:
  "Lstat_tree env_unreadable_subdirectory ''docs'' =
     Inr (Dir ''docs'' [File ''a.md'', DirUnreadable ''sub'']) \<and>
   is_markdown ''a.md'' \<and>
   prepareFileForProcessing env_unreadable_subdirectory docs_world ''docs/a.md''
     ''/home/u/proj/backup'' =
     Inr \<lparr>Path = ''docs/a.md'', Content = ''A'',
          BackupPath = ''/home/u/proj/backup/docs/a.md.bak''\<rparr> \<and>
   collectFilesFromDir env_unreadable_subdirectory docs_world ''docs'' ''/home/u/proj/backup''
     False = Inl (ErrWalkingDirectory (OsError ''docs/sub'')) \<and>
   fixmd env_unreadable_subdirectory False [''docs''] docs_world = Some (1, docs_world, [])"
proof -
  have t: "Lstat_tree env_unreadable_subdirectory ''docs'' =
     Inr (Dir ''docs'' [File ''a.md'', DirUnreadable ''sub''])"
    by (simp add: env_unreadable_subdirectory_def)
  have m: "is_markdown ''a.md''"
    by (simp add: is_markdown_def strings_HasSuffix_def strings_ToLower_def lower_char_def)
  have j: "filepath_Join [''docs'', ''a.md''] = ''docs/a.md''"
    "filepath_Join [''docs'', ''sub''] = ''docs/sub''"
    "filepath_Join [''/home/u/proj'', BackupDirName] = ''/home/u/proj/backup''"
    by (simp_all add: filepath_Join_def filepath_Clean_def Separator_def BackupDirName_def)
  have p: "prepareFileForProcessing env_unreadable_subdirectory docs_world ''docs/a.md''
     ''/home/u/proj/backup'' =
     Inr \<lparr>Path = ''docs/a.md'', Content = ''A'',
          BackupPath = ''/home/u/proj/backup/docs/a.md.bak''\<rparr>"
    by (simp add: prepareFileForProcessing_def os_ReadFile_def docs_world_def filepath_Abs_def
        filepath_IsAbs_def strings_HasPrefix_def env_unreadable_subdirectory_def example_env_def
        filepath_Dir_def filepath_Base_def filepath_Join_def filepath_Clean_def Separator_def
        Let_def)
  have c: "collectFilesFromDir env_unreadable_subdirectory docs_world ''docs''
     ''/home/u/proj/backup'' False = Inl (ErrWalkingDirectory (OsError ''docs/sub''))"
    using m by (simp add: collectFilesFromDir_def filepath_Walk_def t j walkFunc_def p
        is_markdown_def Let_def)
  have g: "Getenv env_unreadable_subdirectory ''GEMINI_API_KEY'' = ''key''"
    "Getwd env_unreadable_subdirectory = Inr ''/home/u/proj''"
    "Stat env_unreadable_subdirectory ''docs'' = Inr True"
    by (simp_all add: env_unreadable_subdirectory_def example_env_def)
  have f: "fixmd env_unreadable_subdirectory False [''docs''] docs_world =
      Some (1, docs_world, [])"
    by (simp add: fixmd_def init_def main_def collect_phase_def g j c Let_def)
  show ?thesis by (intro conjI t m p c f)
qed







subsection \<open>The backup path\<close>

text \<open>
  Claim C6 says that a file outside the working directory gets its absolute path
  flattened. The code tests \<^verbatim>\<open>strings.HasPrefix(fileDir, absWorkDir)\<close>, a comparison of
  strings: with the working directory \<^verbatim>\<open>/home/u/proj\<close>, the file
  \<^verbatim>\<open>/home/u/project/a.md\<close> of the sibling directory \<^verbatim>\<open>project\<close> takes the branch commented
  ``file is in a subdirectory of the current directory'' and is backed up under
  \<^verbatim>\<open>backup/ct/\<close>; the file \<^verbatim>\<open>/home/u/projX/a.md\<close> gets the very backup path of the working
  directory's own \<^verbatim>\<open>a.md\<close>. A file that is really elsewhere, \<^verbatim>\<open>/etc/notes/a.md\<close>, is
  flattened as the claim says.
\<close>

theorem sibling_directory_is_not_flattened:
  "prepareFileForProcessing example_env outside_world ''/home/u/project/a.md''
     ''/home/u/proj/backup'' =
     Inr \<lparr>Path = ''/home/u/project/a.md'', Content = ''sibling'',
          BackupPath = ''/home/u/proj/backup/ct/a.md.bak''\<rparr> \<and>
   prepareFileForProcessing example_env outside_world ''/home/u/projX/a.md''
     ''/home/u/proj/backup'' =
     Inr \<lparr>Path = ''/home/u/projX/a.md'', Content = ''other'',
          BackupPath = ''/home/u/proj/backup/a.md.bak''\<rparr> \<and>
   prepareFileForProcessing example_env outside_world ''a.md'' ''/home/u/proj/backup'' =
     Inr \<lparr>Path = ''a.md'', Content = ''here'',
          BackupPath = ''/home/u/proj/backup/a.md.bak''\<rparr> \<and>
   prepareFileForProcessing example_env outside_world ''/etc/notes/a.md''
     ''/home/u/proj/backup'' =
     Inr \<lparr>Path = ''/etc/notes/a.md'', Content = ''far'',
          BackupPath = ''/home/u/proj/backup/_etc_notes_a.md.bak''\<rparr>"
  by (simp add: prepareFileForProcessing_def os_ReadFile_def outside_world_def filepath_Abs_def
      filepath_IsAbs_def strings_HasPrefix_def example_env_def filepath_Dir_def filepath_Base_def
      filepath_Join_def filepath_Clean_def Separator_def strings_ReplaceAll_def Let_def)

subsection \<open>Runs with nothing to do\<close>



text \<open>
  Claim C10 speaks of the process. Before \<^verbatim>\<open>main\<close> looks at its argument, \<^verbatim>\<open>init\<close> has left
  with exit code 1 if \<^verbatim>\<open>GEMINI_API_KEY\<close> is not set, and \<^verbatim>\<open>main\<close> leaves with exit code 1 if
  \<^verbatim>\<open>os.Getwd\<close> fails: for the existing file \<^verbatim>\<open>notes.txt\<close>, whose name does not end in \<^verbatim>\<open>.md\<close>,
  the exit code is then 1 and not 0.
\<close>

theorem setup_failure_exits_one:
  "Stat env_no_key ''notes.txt'' = Inr False \<and>
   \<not> strings_HasSuffix (strings_ToLower ''notes.txt'') ''.md'' \<and>
   fixmd env_no_key False [''notes.txt''] example_world = Some (1, example_world, []) \<and>
   Stat env_no_cwd ''notes.txt'' = Inr False \<and>
   fixmd env_no_cwd False [''notes.txt''] example_world = Some (1, example_world, [])"
  by (simp add: fixmd_def init_def main_def collect_phase_def env_no_key_def env_no_cwd_def
      example_env_def strings_HasSuffix_def strings_ToLower_def lower_char_def Let_def)






subsection \<open>The workers and the semaphore\<close>

lemma filter_update_count:
  "i < length xs \<Longrightarrow>
     length (filter P (xs[i := v])) + (if P (xs ! i) then 1 else 0) =
     length (filter P xs) + (if P v then 1 else 0)"
proof (induction xs arbitrary: i)
  case Nil
  then show ?case by simp
next
  case (Cons x xs)
  show ?case
  proof (cases i)
    case 0
    then show ?thesis by simp
  next
    case (Suc j)
    with Cons.prems have "j < length xs" by simp
    from Cons.IH [OF this] Suc show ?thesis by simp
  qed
qed

lemma sum_update:
  "i < length xs \<Longrightarrow>
     sum_list (map f (xs[i := v])) + f (xs ! i) = sum_list (map f xs) + (f v :: nat)"
proof (induction xs arbitrary: i)
  case Nil
  then show ?case by simp
next
  case (Cons x xs)
  show ?case
  proof (cases i)
    case 0
    then show ?thesis by simp
  next
    case (Suc j)
    with Cons.prems have "j < length xs" by simp
    from Cons.IH [OF this] Suc show ?thesis by simp
  qed
qed

lemma holders_update:
  assumes "i < length (pcs st)"
  shows "length (filter (\<lambda>c. c \<noteq> Waiting \<and> c \<noteq> Done) ((pcs st)[i := v])) +
           (if pcs st ! i \<noteq> Waiting \<and> pcs st ! i \<noteq> Done then 1 else 0) =
         holders st + (if v \<noteq> Waiting \<and> v \<noteq> Done then 1 else 0)"
  unfolding holders_def using filter_update_count [OF assms] .

lemma holders_pos:
  assumes "i < length (pcs st)" "pcs st ! i \<noteq> Waiting" "pcs st ! i \<noteq> Done"
  shows "0 < holders st"
proof -
  have "pcs st ! i \<in> set (filter (\<lambda>c. c \<noteq> Waiting \<and> c \<noteq> Done) (pcs st))"
    using assms by simp
  then show ?thesis unfolding holders_def by (metis length_pos_if_in_set)
qed

text \<open>The four kinds of step.\<close>

lemma step_Waiting:
  assumes "i < length (pcs st)" "i < length ts" "pcs st ! i = Waiting"
  shows "worker_step e ts i st =
     (if ch_len (apiSemaphore st) < ch_cap (apiSemaphore st)
      then st\<lparr>apiSemaphore := (apiSemaphore st)\<lparr>ch_len := ch_len (apiSemaphore st) + 1\<rparr>,
              pcs := (pcs st)[i := Holding]\<rparr>
      else st)"
  using assms by (simp add: worker_step_def Acquire_def)

lemma step_Holding:
  assumes "i < length (pcs st)" "i < length ts" "pcs st ! i = Holding"
  shows "worker_step e ts i st =
     st\<lparr>outside := snd (processFileContent e (ts ! i) (outside st)),
        pcs := (pcs st)[i := Finished (fst (processFileContent e (ts ! i) (outside st)))]\<rparr>"
  using assms by (simp add: worker_step_def split_def Let_def)

lemma step_Finished:
  assumes "i < length (pcs st)" "i < length ts" "pcs st ! i = Finished ok"
  shows "worker_step e ts i st =
     st\<lparr>statusBar := fst (if ok then IncrementSuccess (statusBar st)
                          else IncrementFailed (statusBar st)),
        printed := printed st @ [snd (if ok then IncrementSuccess (statusBar st)
                          else IncrementFailed (statusBar st))],
        pcs := (pcs st)[i := Reported]\<rparr>"
  using assms by (simp add: worker_step_def split_def Let_def)

lemma step_Reported:
  assumes "i < length (pcs st)" "i < length ts" "pcs st ! i = Reported"
  shows "worker_step e ts i st =
     (if 0 < ch_len (apiSemaphore st)
      then st\<lparr>apiSemaphore := (apiSemaphore st)\<lparr>ch_len := ch_len (apiSemaphore st) - 1\<rparr>,
              pcs := (pcs st)[i := Done]\<rparr>
      else st)"
  using assms by (simp add: worker_step_def Release_def)

lemma step_other:
  "\<not> (i < length (pcs st) \<and> i < length ts) \<or> pcs st ! i = Done \<Longrightarrow> worker_step e ts i st = st"
  by (auto simp: worker_step_def)

lemma pool_inv_step:
  assumes "pool_inv ts st"
  shows "pool_inv ts (worker_step e ts i st)"
proof (cases "i < length (pcs st) \<and> i < length ts")
  case False
  then show ?thesis using assms by (simp add: step_other)
next
  case True
  then have i: "i < length (pcs st)" "i < length ts" by simp_all
  note inv = assms [unfolded pool_inv_def]
  show ?thesis
  proof (cases "pcs st ! i")
    case Waiting
    show ?thesis
    proof (cases "ch_len (apiSemaphore st) < ch_cap (apiSemaphore st)")
      case True
      have "holders (st\<lparr>apiSemaphore := (apiSemaphore st)\<lparr>ch_len := ch_len (apiSemaphore st) + 1\<rparr>,
              pcs := (pcs st)[i := Holding]\<rparr>) = holders st + 1"
        using holders_update [OF i(1), of Holding] Waiting by (simp add: holders_def)
      then show ?thesis
        using inv True unfolding step_Waiting [OF i Waiting] pool_inv_def by simp
    next
      case False
      then show ?thesis using assms by (simp add: step_Waiting [OF i Waiting])
    qed
  next
    case Holding
    have "holders (st\<lparr>outside := snd (processFileContent e (ts ! i) (outside st)),
        pcs := (pcs st)[i := Finished (fst (processFileContent e (ts ! i) (outside st)))]\<rparr>)
        = holders st"
      using holders_update [OF i(1), of "Finished (fst (processFileContent e (ts ! i) (outside st)))"]
        Holding by (simp add: holders_def)
    then show ?thesis
      using inv unfolding step_Holding [OF i Holding] pool_inv_def by simp
  next
    case (Finished ok)
    have "holders (st\<lparr>statusBar := fst (if ok then IncrementSuccess (statusBar st)
                          else IncrementFailed (statusBar st)),
        printed := printed st @ [snd (if ok then IncrementSuccess (statusBar st)
                          else IncrementFailed (statusBar st))],
        pcs := (pcs st)[i := Reported]\<rparr>) = holders st"
      using holders_update [OF i(1), of Reported] Finished by (simp add: holders_def)
    then show ?thesis
      using inv unfolding step_Finished [OF i Finished] pool_inv_def by simp
  next
    case Reported
    have pos: "0 < holders st" using holders_pos [OF i(1)] Reported by simp
    have "holders (st\<lparr>apiSemaphore := (apiSemaphore st)\<lparr>ch_len := ch_len (apiSemaphore st) - 1\<rparr>,
              pcs := (pcs st)[i := Done]\<rparr>) + 1 = holders st"
      using holders_update [OF i(1), of Done] Reported by (simp add: holders_def)
    then show ?thesis
      using inv pos unfolding step_Reported [OF i Reported] pool_inv_def by simp
  next
    case Done
    then show ?thesis using assms by (simp add: step_other)
  qed
qed

lemma pool_inv_start: "pool_inv ts (start_workers ts w)"
  by (simp add: pool_inv_def start_workers_def holders_def NewApiSemaphore_def)

lemma pool_inv_run:
  "pool_inv ts st \<Longrightarrow> pool_inv ts (run_schedule e ts sched st)"
  by (induction sched arbitrary: st) (simp_all add: pool_inv_step)

lemma in_flight_le_holders: "in_flight st \<le> holders st"
proof -
  have "length (filter (\<lambda>c. c = Holding) xs) \<le>
      length (filter (\<lambda>c. c \<noteq> Waiting \<and> c \<noteq> Done) xs)" for xs :: "pc list"
    by (induction xs) auto
  then show ?thesis by (simp add: in_flight_def holders_def)
qed


lemma remaining_update:
  assumes "i < length (pcs st)" and "pcs st' = (pcs st)[i := v]"
    and "steps_left v < steps_left (pcs st ! i)"
  shows "remaining st' < remaining st"
  using sum_update [OF assms(1), of steps_left v] assms(2,3) by (simp add: remaining_def)

lemma holders_zero:
  assumes "\<forall>j < length (pcs st). pcs st ! j = Waiting \<or> pcs st ! j = Done"
  shows "holders st = 0"
proof -
  have "filter (\<lambda>c. c \<noteq> Waiting \<and> c \<noteq> Done) (pcs st) = []"
    using assms by (auto simp: filter_empty_conv in_set_conv_nth)
  then show ?thesis by (simp add: holders_def)
qed

lemma holder_releases:
  assumes "pool_inv ts st" and "i < length ts" and "pcs st ! i = Holding"
  shows "pcs (worker_step e ts i st) ! i =
           Finished (fst (processFileContent e (ts ! i) (outside st))) \<and>
         pcs (worker_step e ts i (worker_step e ts i (worker_step e ts i st))) ! i = Done \<and>
         ch_len (apiSemaphore (worker_step e ts i (worker_step e ts i (worker_step e ts i st)))) =
           ch_len (apiSemaphore st) - 1"
proof -
  have i: "i < length (pcs st)" using assms(1,2) by (simp add: pool_inv_def)
  define b where "b = fst (processFileContent e (ts ! i) (outside st))"
  define st1 where "st1 = worker_step e ts i st"
  define st2 where "st2 = worker_step e ts i st1"
  define st3 where "st3 = worker_step e ts i st2"
  have s1: "pcs st1 = (pcs st)[i := Finished b]" "apiSemaphore st1 = apiSemaphore st"
    unfolding st1_def step_Holding [OF i assms(2,3)] by (simp_all add: b_def)
  have i1: "i < length (pcs st1)" "pcs st1 ! i = Finished b" using i s1 by simp_all
  have s2: "pcs st2 = (pcs st1)[i := Reported]" "apiSemaphore st2 = apiSemaphore st1"
    unfolding st2_def step_Finished [OF i1(1) assms(2) i1(2)] by simp_all
  have i2: "i < length (pcs st2)" "pcs st2 ! i = Reported" using i1 s2 by simp_all
  have pos: "0 < ch_len (apiSemaphore st)"
    using holders_pos [OF i] assms(1,3) by (simp add: pool_inv_def)
  then have pos2: "0 < ch_len (apiSemaphore st2)" using s1 s2 by simp
  have s3: "pcs st3 = (pcs st2)[i := Done]"
    "ch_len (apiSemaphore st3) = ch_len (apiSemaphore st2) - 1"
    unfolding st3_def step_Reported [OF i2(1) assms(2) i2(2)] using pos2 by simp_all
  have "pcs st3 ! i = Done" using s3 i2 by simp
  then show ?thesis
    using i1(2) s3(2) s2(2) s1(2) unfolding st3_def st2_def st1_def b_def by simp
qed

lemma progress:
  assumes "pool_inv ts st" and "\<not> list_all (\<lambda>c. c = Done) (pcs st)"
  shows "\<exists>i < length ts. remaining (worker_step e ts i st) < remaining st"
proof -
  note inv = assms(1) [unfolded pool_inv_def]
  have len: "length (pcs st) = length ts" using inv by simp
  show ?thesis
  proof (cases "\<exists>j < length (pcs st). pcs st ! j \<noteq> Waiting \<and> pcs st ! j \<noteq> Done")
    case True
    then obtain j where j: "j < length (pcs st)" "pcs st ! j \<noteq> Waiting" "pcs st ! j \<noteq> Done"
      by blast
    have jt: "j < length ts" using j len by simp
    have "remaining (worker_step e ts j st) < remaining st"
    proof (cases "pcs st ! j")
      case Waiting
      then show ?thesis using j by simp
    next
      case Holding
      show ?thesis
        by (rule remaining_update [OF j(1), of _
              "Finished (fst (processFileContent e (ts ! j) (outside st)))"])
          (simp_all add: step_Holding [OF j(1) jt Holding] Holding)
    next
      case (Finished ok)
      show ?thesis
        by (rule remaining_update [OF j(1), of _ Reported])
          (simp_all add: step_Finished [OF j(1) jt Finished] Finished)
    next
      case Reported
      have pos: "0 < ch_len (apiSemaphore st)"
        using holders_pos [OF j] inv by simp
      show ?thesis
        by (rule remaining_update [OF j(1), of _ Done])
          (simp_all add: step_Reported [OF j(1) jt Reported] Reported pos)
    next
      case Done
      then show ?thesis using j by simp
    qed
    then show ?thesis using jt by blast
  next
    case False
    then have all: "\<forall>j < length (pcs st). pcs st ! j = Waiting \<or> pcs st ! j = Done" by blast
    from assms(2) obtain i where i: "i < length (pcs st)" "pcs st ! i \<noteq> Done"
      by (auto simp: list_all_length)
    then have w: "pcs st ! i = Waiting" using all by blast
    have it: "i < length ts" using i len by simp
    have "ch_len (apiSemaphore st) = 0" using holders_zero [OF all] inv by simp
    then have free: "ch_len (apiSemaphore st) < ch_cap (apiSemaphore st)"
      using inv by (simp add: MaxConcurrent_def)
    have "remaining (worker_step e ts i st) < remaining st"
      by (rule remaining_update [OF i(1), of _ Holding])
        (simp_all add: step_Waiting [OF i(1) it w] free w)
    then show ?thesis using it by blast
  qed
qed

lemma run_completes:
  assumes "pool_inv ts st"
  shows "\<exists>rest. list_all (\<lambda>c. c = Done) (pcs (run_schedule e ts rest st)) \<and>
     ch_len (apiSemaphore (run_schedule e ts rest st)) = 0"
  using assms
proof (induction "remaining st" arbitrary: st rule: less_induct)
  case less
  show ?case
  proof (cases "list_all (\<lambda>c. c = Done) (pcs st)")
    case True
    then have "\<forall>j < length (pcs st). pcs st ! j = Waiting \<or> pcs st ! j = Done"
      by (simp add: list_all_length)
    then have "ch_len (apiSemaphore st) = 0"
      using holders_zero less.prems by (simp add: pool_inv_def)
    with True show ?thesis by (intro exI [of _ "[]"]) simp
  next
    case False
    from progress [OF less.prems False, of e] obtain i where
      i: "remaining (worker_step e ts i st) < remaining st" by blast
    from less.hyps [OF i pool_inv_step [OF less.prems]] obtain rest where
      "list_all (\<lambda>c. c = Done) (pcs (run_schedule e ts rest (worker_step e ts i st))) \<and>
       ch_len (apiSemaphore (run_schedule e ts rest (worker_step e ts i st))) = 0"
      by blast
    then show ?thesis by (intro exI [of _ "i # rest"]) simp
  qed
qed

lemma step_keeps_outside:
  "pcs st ! i \<noteq> Holding \<Longrightarrow> outside (worker_step e ts i st) = outside st"
  by (auto simp: worker_step_def Let_def split_def split: pc.splits option.splits)

text \<open>
  Claim C7. In every state that the workers of a batch of any size reach, under any
  interleaving of their steps: at most \<open>MaxConcurrent = 3\<close> goroutines are inside
  \<^verbatim>\<open>processFileContent\<close> (where the transform calls are made); the channel of the semaphore
  holds exactly one element per goroutine between its \<^verbatim>\<open>Acquire\<close> and its \<^verbatim>\<open>Release\<close>, and
  never more than three; a goroutine that has not acquired the semaphore does nothing to the
  world outside; a goroutine inside \<^verbatim>\<open>processFileContent\<close> reaches, whatever that call
  returns (success or failure), its report and its \<^verbatim>\<open>Release\<close> in its next three steps, none
  of which can block, and gives its slot back; and the run can always be continued until
  every goroutine is done and the channel is empty: no slot stays taken for ever.
\<close>

theorem semaphore_bounds_in_flight:
  assumes "st = run_schedule e ts sched (start_workers ts w)"
  shows "in_flight st \<le> MaxConcurrent \<and> MaxConcurrent = 3 \<and>
         ch_len (apiSemaphore st) = holders st \<and> holders st \<le> MaxConcurrent \<and>
         (\<forall>i < length ts. pcs st ! i \<noteq> Holding \<longrightarrow>
            outside (worker_step e ts i st) = outside st) \<and>
         (\<forall>i < length ts. pcs st ! i = Holding \<longrightarrow>
            pcs (worker_step e ts i st) ! i =
              Finished (fst (processFileContent e (ts ! i) (outside st))) \<and>
            pcs (worker_step e ts i (worker_step e ts i (worker_step e ts i st))) ! i = Done \<and>
            ch_len (apiSemaphore
              (worker_step e ts i (worker_step e ts i (worker_step e ts i st)))) =
              ch_len (apiSemaphore st) - 1) \<and>
         (\<exists>rest. list_all (\<lambda>c. c = Done) (pcs (run_schedule e ts rest st)) \<and>
            ch_len (apiSemaphore (run_schedule e ts rest st)) = 0)"
proof -
  have inv: "pool_inv ts st"
    unfolding assms by (rule pool_inv_run [OF pool_inv_start])
  have a: "in_flight st \<le> MaxConcurrent"
    using in_flight_le_holders [of st] inv by (simp add: pool_inv_def)
  have b: "ch_len (apiSemaphore st) = holders st \<and> holders st \<le> MaxConcurrent"
    using inv by (simp add: pool_inv_def)
  show ?thesis
    using a b holder_releases [OF inv] run_completes [OF inv, of e] step_keeps_outside
    by (simp add: MaxConcurrent_def)
qed

lemma four_tasks_run:
  "pcs (run_schedule example_env four_tasks [0, 1, 2, 3] (start_workers four_tasks example_world)) =
     [Holding, Holding, Holding, Waiting]"
  by code_simp

lemma four_tasks_sem:
  "ch_len (apiSemaphore (run_schedule example_env four_tasks [0, 1, 2, 3]
     (start_workers four_tasks example_world))) = 3"
  by code_simp

lemma four_tasks_blocked:
  "pcs (worker_step example_env four_tasks 3 (run_schedule example_env four_tasks [0, 1, 2, 3]
     (start_workers four_tasks example_world))) ! 3 = Waiting"
  by code_simp

lemma four_tasks_in_flight:
  "in_flight (run_schedule example_env four_tasks [0, 1, 2, 3]
     (start_workers four_tasks example_world)) = 3"
  by code_simp

theorem semaphore_bounds_in_flight_witness:
  "pcs (run_schedule example_env four_tasks [0, 1, 2, 3] (start_workers four_tasks example_world)) =
     [Holding, Holding, Holding, Waiting] \<and>
   in_flight (run_schedule example_env four_tasks [0, 1, 2, 3]
     (start_workers four_tasks example_world)) = 3 \<and>
   in_flight (run_schedule example_env four_tasks [0, 1, 2, 3]
     (start_workers four_tasks example_world)) \<le> MaxConcurrent \<and>
   ch_len (apiSemaphore (run_schedule example_env four_tasks [0, 1, 2, 3]
     (start_workers four_tasks example_world))) = 3 \<and>
   pcs (worker_step example_env four_tasks 3 (run_schedule example_env four_tasks [0, 1, 2, 3]
     (start_workers four_tasks example_world))) ! 3 = Waiting"
proof -
  note T = semaphore_bounds_in_flight [OF refl, of example_env four_tasks "[0, 1, 2, 3]"
      example_world]
  have a: "in_flight (run_schedule example_env four_tasks [0, 1, 2, 3]
     (start_workers four_tasks example_world)) \<le> MaxConcurrent"
    using T by (rule conjunct1)
  show ?thesis
    by (intro conjI four_tasks_run four_tasks_in_flight a four_tasks_sem four_tasks_blocked)
qed

subsection \<open>The status bar in a run\<close>

lemma reported_le: "reported st \<le> length (pcs st)"
  by (simp add: reported_def)

lemma reported_update:
  assumes "i < length (pcs st)"
  shows "length (filter (\<lambda>c. c = Reported \<or> c = Done) ((pcs st)[i := v])) +
           (if pcs st ! i = Reported \<or> pcs st ! i = Done then 1 else 0) =
         reported st + (if v = Reported \<or> v = Done then 1 else 0)"
  unfolding reported_def using filter_update_count [OF assms] .

lemma increment_fields:
  "total (fst (if ok then IncrementSuccess s else IncrementFailed s)) = total s"
  "processed (fst (if ok then IncrementSuccess s else IncrementFailed s)) = processed s + 1"
  "success (fst (if ok then IncrementSuccess s else IncrementFailed s)) +
     failed (fst (if ok then IncrementSuccess s else IncrementFailed s)) =
     success s + failed s + 1"
  "snd (if ok then IncrementSuccess s else IncrementFailed s) =
     update (fst (if ok then IncrementSuccess s else IncrementFailed s))"
  by (simp_all add: IncrementSuccess_def IncrementFailed_def Let_def)

lemma word_le_of_nat:
  assumes "a \<le> b" and "b < 2 ^ 63"
  shows "(of_nat a :: 64 word) \<le>s of_nat b"
proof -
  have "sint (of_nat a :: 64 word) = int a" "sint (of_nat b :: 64 word) = int b"
    using assms by (simp_all add: sint_of_nat_small)
  then show ?thesis using assms(1) by (simp add: word_sle_eq)
qed

lemma bar_inv_cong:
  assumes "bar_inv ts st" and "length (pcs st') = length (pcs st)"
    and "statusBar st' = statusBar st" and "printed st' = printed st"
    and "reported st' = reported st"
  shows "bar_inv ts st'"
  using assms(1) unfolding bar_inv_def assms(2-5) .

lemma bar_inv_step:
  assumes "bar_inv ts st" and "length ts < 2 ^ 63"
  shows "bar_inv ts (worker_step e ts i st)"
proof (cases "i < length (pcs st) \<and> i < length ts")
  case False
  then show ?thesis using assms by (simp add: step_other)
next
  case True
  then have i: "i < length (pcs st)" "i < length ts" by simp_all
  note inv = assms(1) [unfolded bar_inv_def]
  show ?thesis
  proof (cases "pcs st ! i")
    case Waiting
    have "reported (st\<lparr>apiSemaphore := (apiSemaphore st)\<lparr>ch_len := ch_len (apiSemaphore st) + 1\<rparr>,
              pcs := (pcs st)[i := Holding]\<rparr>) = reported st"
      using reported_update [OF i(1), of Holding] Waiting by (simp add: reported_def)
    then show ?thesis
      unfolding step_Waiting [OF i Waiting]
      by (auto intro!: bar_inv_cong [OF assms(1)])
  next
    case Holding
    have "reported (st\<lparr>outside := snd (processFileContent e (ts ! i) (outside st)),
        pcs := (pcs st)[i := Finished (fst (processFileContent e (ts ! i) (outside st)))]\<rparr>)
        = reported st"
      using reported_update [OF i(1), of "Finished (fst (processFileContent e (ts ! i) (outside st)))"]
        Holding by (simp add: reported_def)
    then show ?thesis
      unfolding step_Holding [OF i Holding]
      by (auto intro!: bar_inv_cong [OF assms(1)])
  next
    case (Finished ok)
    define b where "b = fst (if ok then IncrementSuccess (statusBar st)
                          else IncrementFailed (statusBar st))"
    define st' where "st' = st\<lparr>statusBar := b, printed := printed st @ [update b],
        pcs := (pcs st)[i := Reported]\<rparr>"
    have step: "worker_step e ts i st = st'"
      unfolding step_Finished [OF i Finished] st'_def b_def increment_fields(4) ..
    have r: "reported st' = reported st + 1"
      using reported_update [OF i(1), of Reported] Finished by (simp add: reported_def st'_def)
    have len: "length (pcs st') = length ts" using inv by (simp add: st'_def)
    have t: "total b = of_nat (length ts)"
      using inv by (simp add: b_def increment_fields)
    have p: "processed b = of_nat (reported st')"
      using inv by (simp add: b_def increment_fields r)
    have i4: "processed (statusBar st) = success (statusBar st) + failed (statusBar st)"
      using inv by (elim conjE)
    have "processed b = processed (statusBar st) + 1"
      by (simp add: b_def increment_fields(2))
    also have "\<dots> = success (statusBar st) + failed (statusBar st) + 1"
      by (simp only: i4 [symmetric])
    also have "\<dots> = success b + failed b"
      unfolding b_def increment_fields(3) ..
    finally have c: "processed b = success b + failed b" .
    have "reported st' \<le> length ts" using reported_le [of st'] len by simp
    then have bd: "processed b \<le>s total b"
      unfolding p t using assms(2) by (rule word_le_of_nat)
    have l: "is_Processing (update b) \<and> shown_consistent (update b) \<and> shown_bounded (update b)"
      using c bd by (simp add: update_def shown_consistent_def shown_bounded_def)
    have "bar_inv ts st'"
      unfolding bar_inv_def using len t p c l inv by (simp add: st'_def)
    then show ?thesis unfolding step .
  next
    case Reported
    have "reported (st\<lparr>apiSemaphore := (apiSemaphore st)\<lparr>ch_len := ch_len (apiSemaphore st) - 1\<rparr>,
              pcs := (pcs st)[i := Done]\<rparr>) = reported st"
      using reported_update [OF i(1), of Done] Reported by (simp add: reported_def)
    then show ?thesis
      unfolding step_Reported [OF i Reported]
      by (auto intro!: bar_inv_cong [OF assms(1)])
  next
    case Done
    then show ?thesis using assms by (simp add: step_other)
  qed
qed

lemma bar_inv_start: "bar_inv ts (start_workers ts w)"
  by (simp add: bar_inv_def start_workers_def reported_def NewStatusBar_def)

lemma bar_inv_run:
  "bar_inv ts st \<Longrightarrow> length ts < 2 ^ 63 \<Longrightarrow> bar_inv ts (run_schedule e ts sched st)"
  by (induction sched arbitrary: st) (simp_all add: bar_inv_step)

lemma all_done_reported:
  "list_all (\<lambda>c. c = Done) (pcs st) \<Longrightarrow> reported st = length (pcs st)"
  unfolding reported_def by (induction "pcs st" arbitrary: st) (auto simp: list_all_iff filter_id_conv)

lemma run_calls_snoc:
  "run_calls s (cs @ [c]) =
     (fst (do_call c (fst (run_calls s cs))),
      snd (run_calls s cs) @ [snd (do_call c (fst (run_calls s cs)))])"
  by (induction cs arbitrary: s) (simp_all add: split_def Let_def)

lemma increments_snoc:
  "increments (cs @ [c]) = increments cs + (if c = CallFinish then 0 else 1)"
  by (induction cs rule: increments.induct) (cases c; simp)+

lemma calls_inv_cong:
  assumes "calls_inv ts st"
    and "statusBar st' = statusBar st" and "printed st' = printed st"
    and "reported st' = reported st"
  shows "calls_inv ts st'"
  using assms(1) unfolding calls_inv_def assms(2-4) .

lemma calls_inv_step:
  assumes "calls_inv ts st"
  shows "calls_inv ts (worker_step e ts i st)"
proof (cases "i < length (pcs st) \<and> i < length ts")
  case False
  then show ?thesis using assms by (simp add: step_other)
next
  case True
  then have i: "i < length (pcs st)" "i < length ts" by simp_all
  show ?thesis
  proof (cases "pcs st ! i")
    case Waiting
    have "reported (st\<lparr>apiSemaphore := (apiSemaphore st)\<lparr>ch_len := ch_len (apiSemaphore st) + 1\<rparr>,
              pcs := (pcs st)[i := Holding]\<rparr>) = reported st"
      using reported_update [OF i(1), of Holding] Waiting by (simp add: reported_def)
    then show ?thesis
      unfolding step_Waiting [OF i Waiting]
      by (auto intro!: calls_inv_cong [OF assms])
  next
    case Holding
    have "reported (st\<lparr>outside := snd (processFileContent e (ts ! i) (outside st)),
        pcs := (pcs st)[i := Finished (fst (processFileContent e (ts ! i) (outside st)))]\<rparr>)
        = reported st"
      using reported_update [OF i(1), of "Finished (fst (processFileContent e (ts ! i) (outside st)))"]
        Holding by (simp add: reported_def)
    then show ?thesis
      unfolding step_Holding [OF i Holding]
      by (auto intro!: calls_inv_cong [OF assms])
  next
    case (Finished ok)
    define c where "c = (if ok then CallIncrementSuccess else CallIncrementFailed)"
    have dc: "do_call c s = (if ok then IncrementSuccess s else IncrementFailed s)" for s
      by (simp add: c_def)
    define st' where "st' = worker_step e ts i st"
    have sb: "statusBar st' = fst (do_call c (statusBar st))"
      "printed st' = printed st @ [snd (do_call c (statusBar st))]"
      "pcs st' = (pcs st)[i := Reported]"
      unfolding st'_def step_Finished [OF i Finished] dc by simp_all
    have r: "reported st' = reported st + 1"
      using reported_update [OF i(1), of Reported] Finished by (simp add: reported_def sb(3))
    from assms obtain cs where cs:
      "run_calls (NewStatusBar (of_nat (length ts))) cs = (statusBar st, printed st)"
      "increments cs = reported st" "CallFinish \<notin> set cs"
      unfolding calls_inv_def by blast
    have "run_calls (NewStatusBar (of_nat (length ts))) (cs @ [c]) = (statusBar st', printed st')"
      unfolding run_calls_snoc cs(1) sb by simp
    moreover have "increments (cs @ [c]) = reported st'"
      unfolding increments_snoc r cs(2) by (simp add: c_def)
    moreover have "CallFinish \<notin> set (cs @ [c])" using cs(3) by (simp add: c_def)
    ultimately show ?thesis unfolding calls_inv_def st'_def [symmetric] by blast
  next
    case Reported
    have "reported (st\<lparr>apiSemaphore := (apiSemaphore st)\<lparr>ch_len := ch_len (apiSemaphore st) - 1\<rparr>,
              pcs := (pcs st)[i := Done]\<rparr>) = reported st"
      using reported_update [OF i(1), of Done] Reported by (simp add: reported_def)
    then show ?thesis
      unfolding step_Reported [OF i Reported]
      by (auto intro!: calls_inv_cong [OF assms])
  next
    case Done
    then show ?thesis using assms by (simp add: step_other)
  qed
qed

lemma calls_inv_start: "calls_inv ts (start_workers ts w)"
  unfolding calls_inv_def
  by (rule exI [of _ "[]"]) (simp add: start_workers_def reported_def)

lemma calls_inv_run:
  "calls_inv ts st \<Longrightarrow> calls_inv ts (run_schedule e ts sched st)"
  by (induction sched arbitrary: st) (simp_all add: calls_inv_step)

lemma one_write_fails_process:
  "fst (processFileContent env_one_write_fails example_task w) = True"
  "fst (processFileContent env_one_write_fails example_task2 w) = False"
proof -
  have c: "call_result env_one_write_fails content k = (''fixed'', None)" for content k
    by (simp add: call_result_def processWithGemini_def env_one_write_fails_def example_env_def
        ok_response_def)
  have r: "processWithGeminiRetry env_one_write_fails content w =
      ((''fixed'', None), w\<lparr>clock := clock w + 0 + 1,
         log := log w @ retry_trace env_one_write_fails content (clock w) 0 0 @
           [GeminiCalled content]\<rparr>)" for content
    unfolding processWithGeminiRetry_def
    by (rule loop_success) (simp_all add: MaxRetries_def c)
  have wr: "write_result env_one_write_fails k p =
      (if p = ''sub/b.md'' then OpenFails else WriteOk)" for k p
    by (simp add: env_one_write_fails_def)
  show "fst (processFileContent env_one_write_fails example_task w) = True"
    by (simp add: processFileContent_def r os_WriteFile_def wr example_task_def Let_def)
  show "fst (processFileContent env_one_write_fails example_task2 w) = False"
    by (simp add: processFileContent_def r os_WriteFile_def wr example_task2_def Let_def)
qed

lemma one_write_fails_run:
  "statusBar (run_schedule env_one_write_fails [example_task, example_task2]
     [0, 1, 0, 0, 1, 1, 0, 1] (start_workers [example_task, example_task2] two_files_world)) =
   \<lparr>total = 2, processed = 2, success = 1, failed = 1\<rparr>"
  "printed (run_schedule env_one_write_fails [example_task, example_task2]
     [0, 1, 0, 0, 1, 1, 0, 1] (start_workers [example_task, example_task2] two_files_world)) =
   [Processing 1 2 1 0, Processing 2 2 1 1]"
  "pcs (run_schedule env_one_write_fails [example_task, example_task2]
     [0, 1, 0, 0, 1, 1, 0, 1] (start_workers [example_task, example_task2] two_files_world)) =
   [Done, Done]"
  by (simp_all add: start_workers_def worker_step_def Acquire_def Release_def NewApiSemaphore_def
      MaxConcurrent_def NewStatusBar_def split_def Let_def one_write_fails_process
      IncrementSuccess_def IncrementFailed_def update_def)

end
